theory Spec2Isabelle
  imports Main "HOL-Library.Word"
begin

unbundle bit_operations_syntax

section \<open>Machine types of the extractor\<close>

text \<open>
  The program is ANSI C for Windows.  \<open>UCHAR\<close> is a byte, \<open>UINT32\<close> a 32-bit
  unsigned integer and \<open>size_t\<close> is taken at its 64-bit width (an x64 build); all
  three wrap around, as C's unsigned arithmetic does.
\<close>

type_synonym UCHAR = "8 word"
type_synonym UINT32 = "32 word"
type_synonym size_t = "64 word"

section \<open>Stream codec\<close>

text \<open>The macro \<open>decode_one_byte(c)\<close> is \<open>(unsigned char)(c ^ 0xf7)\<close>.\<close>

definition decode_one_byte :: "UCHAR \<Rightarrow> UCHAR" where
  "decode_one_byte c = c XOR 0xf7"

text \<open>
  The macro \<open>decode_bytes(fromBuf, toBuf, len)\<close> is always used in place
  (\<open>fromBuf = toBuf\<close>): it decodes the first \<open>len\<close> bytes of the buffer and leaves
  the rest as it was.
\<close>

definition decode_bytes :: "UCHAR list \<Rightarrow> nat \<Rightarrow> UCHAR list" where
  "decode_bytes buf len = map decode_one_byte (take len buf) @ drop len buf"

section \<open>Memory pool\<close>

text \<open>
  \<open>struct ArenaBlockHeader\<close> has the fields \<open>used\<close>, \<open>capacity\<close> and \<open>next\<close>.  The
  chain that starts at \<open>arena->head\<close> and follows \<open>next\<close> is the list \<open>blocks\<close>, most
  recently created block first; a block is only ever linked in at the head
  (\<open>arena_create_new_block\<close>), so its position counted from the end of the chain
  never changes and names it.
\<close>

record ArenaBlockHeader =
  used :: size_t
  capacity :: size_t

record ArenaAllocator =
  blocks :: "ArenaBlockHeader list"
  blockSize :: size_t
  blockNum :: size_t

text \<open>
  A pointer into the pool: the block (counted from the oldest, which is block 0) and
  the byte offset from the start of that block's data area \<open>(char*)(block + 1)\<close>.
\<close>

type_synonym ptr = "nat \<times> size_t"

datatype fatal = OutOfMemory

text \<open>
  \<open>arena_create\<close>: two calls of the C library's \<open>malloc\<close>, one for the handle and one for
  the first block; the two flags say whether each succeeds.  \<open>None\<close> is the \<open>NULL\<close>
  result.
\<close>

definition arena_create :: "bool \<Rightarrow> bool \<Rightarrow> size_t \<Rightarrow> ArenaAllocator option" where
  "arena_create handle_ok block_ok bsize =
     (if \<not> handle_ok then None
      else if \<not> block_ok then None
      else Some \<lparr>blocks = [\<lparr>used = 0, capacity = bsize\<rparr>], blockSize = bsize, blockNum = 1\<rparr>)"

text \<open>
  \<open>arena_create_new_block\<close>.  Whether the C library grants one more block is read from
  \<open>mem\<close> at the number of blocks that exist: a refused request calls \<open>abort()\<close>, so every
  later request sees a longer chain.
\<close>

definition arena_create_new_block ::
  "(nat \<Rightarrow> bool) \<Rightarrow> ArenaAllocator \<Rightarrow> size_t \<Rightarrow> size_t \<Rightarrow> fatal + ArenaAllocator" where
  "arena_create_new_block mem arena sz u =
     (if mem (length (blocks arena))
      then Inr (arena\<lparr>blocks := \<lparr>used = u, capacity = sz\<rparr> # blocks arena,
                      blockNum := blockNum arena + 1\<rparr>)
      else Inl OutOfMemory)"

text \<open>
  The \<open>while (cursor != NULL)\<close> loop of \<open>arena_malloc\<close>.  The test
  \<open>cursor->used + size <= cursor->capacity\<close> is \<open>size_t\<close> arithmetic and wraps; the
  pointer returned is \<open>(char*)(cursor + 1) + cursor->used - size\<close>, computed after
  \<open>used\<close> was bumped.
\<close>

fun arena_scan :: "ArenaBlockHeader list \<Rightarrow> size_t \<Rightarrow> (ptr \<times> ArenaBlockHeader list) option" where
  "arena_scan [] sz = None"
| "arena_scan (b # bs) sz =
     (if used b + sz \<le> capacity b
      then Some ((length bs, used b + sz - sz), b\<lparr>used := used b + sz\<rparr> # bs)
      else (case arena_scan bs sz of
              None \<Rightarrow> None
            | Some (p, bs') \<Rightarrow> Some (p, b # bs')))"

definition arena_malloc ::
  "(nat \<Rightarrow> bool) \<Rightarrow> ArenaAllocator \<Rightarrow> size_t \<Rightarrow> fatal + (ptr \<times> ArenaAllocator)" where
  "arena_malloc mem arena sz =
     (case arena_scan (blocks arena) sz of
        Some (p, bs') \<Rightarrow> Inr (p, arena\<lparr>blocks := bs'\<rparr>)
      | None \<Rightarrow>
          (case (if sz < blockSize arena
                 then arena_create_new_block mem arena (blockSize arena) sz
                 else arena_create_new_block mem arena sz sz) of
             Inl e \<Rightarrow> Inl e
           | Inr arena' \<Rightarrow> Inr ((length (blocks arena), 0), arena')))"

section \<open>The container stream\<close>

text \<open>
  \<open>res->pakFile\<close>, opened with \<open>"rb"\<close> and only ever read forward: the bytes not yet
  read, and the end-of-file indicator that \<open>feof\<close> tests.  The indicator is set by a
  read that asks for more bytes than are left, never by reaching the end exactly.
\<close>

record pak_stream =
  content :: "UCHAR list"
  eof :: bool

text \<open>
  \<open>fread(buf, 1, n, file)\<close>: \<open>buf\<close> is what the destination held before the call.  The
  bytes read overwrite its front, the rest keeps its old value, and the number of bytes
  read is returned.
\<close>

definition fread :: "UCHAR list \<Rightarrow> nat \<Rightarrow> pak_stream \<Rightarrow> UCHAR list \<times> nat \<times> pak_stream" where
  "fread buf n f =
     (let got = take n (content f)
      in (got @ drop (length got) buf, length got,
          \<lparr>content = drop n (content f), eof = (eof f \<or> length (content f) < n)\<rparr>))"

section \<open>Records, the record list and the memory they live in\<close>

text \<open>
  \<open>struct FileAttr\<close>.  \<open>fileName\<close> points at a string in the pool; \<open>fileSize\<close> is read
  through a \<open>UCHAR*\<close>, so its value is the little-endian reading of four bytes;
  \<open>lastWriteTime\<close> is a \<open>FILETIME\<close>, eight bytes that the program never interprets.  A
  null pointer is \<open>None\<close>.
\<close>

record FileAttr =
  fileName :: ptr
  fileSize :: UINT32
  lastWriteTime :: "UCHAR list"
  "next" :: "ptr option"

record FileAttrList =
  head :: "ptr option"
  tail :: "ptr option"
  length_l :: size_t

record PakHeader =
  magic :: "UCHAR list"
  version :: "UCHAR list"
  flist :: FileAttrList

text \<open>
  What the program has stored in pool memory, by the address of the object: the
  \<open>FileAttr\<close> structs and the file-name buffers.
\<close>

record pool_memory =
  attr_at :: "ptr \<rightharpoonup> FileAttr"
  str_at :: "ptr \<rightharpoonup> UCHAR list"

text \<open>
  Memory the program reads before writing it holds bytes the C standard leaves
  unspecified.  They are a parameter: the local \<open>flag\<close> of \<open>reach_pak_header_end\<close>, the
  local \<open>byte\<close> of \<open>parse_file_name\<close>, the \<open>magic\<close> and \<open>version\<close> arrays of the header
  on \<open>main\<close>'s stack, the array \<open>path\<close> of \<open>parse_and_extract_one_file\<close>, and every
  byte of the pool.
\<close>

record uninit =
  local_flag :: UCHAR
  local_byte :: UCHAR
  local_header :: "nat \<Rightarrow> UCHAR"
  local_path :: "nat \<Rightarrow> UCHAR"
  pool_byte :: "ptr \<Rightarrow> UCHAR"

definition ptr_add :: "ptr \<Rightarrow> size_t \<Rightarrow> ptr" where
  "ptr_add p k = (fst p, snd p + k)"

definition pool_bytes :: "uninit \<Rightarrow> ptr \<Rightarrow> nat \<Rightarrow> UCHAR list" where
  "pool_bytes u p n = map (\<lambda>i. pool_byte u (ptr_add p (of_nat i))) [0..<n]"

text \<open>
  The x64 layout of \<open>struct FileAttr\<close>: \<open>fileName\<close> at 0, \<open>fileSize\<close> at 8,
  \<open>lastWriteTime\<close> at 12, \<open>next\<close> at 24, 32 bytes in all.
\<close>

definition sizeof_FileAttr :: size_t where
  "sizeof_FileAttr = 32"

definition le32 :: "UCHAR list \<Rightarrow> UINT32" where
  "le32 bs = foldr (\<lambda>b acc. ucast b OR push_bit 8 acc) bs 0"

text \<open>
  The struct as \<open>arena_malloc\<close> hands it out: its data fields read whatever the pool
  held; its two pointer fields are assigned before the program reads them.
\<close>

definition fresh_attr :: "uninit \<Rightarrow> ptr \<Rightarrow> FileAttr" where
  "fresh_attr u p =
     \<lparr>fileName = (0, 0), fileSize = le32 (pool_bytes u (ptr_add p 8) 4),
      lastWriteTime = pool_bytes u (ptr_add p 12) 8, next = None\<rparr>"

definition file_attr_list_init :: FileAttrList where
  "file_attr_list_init = \<lparr>head = None, tail = None, length_l = 0\<rparr>"

definition set_next :: "(ptr \<rightharpoonup> FileAttr) \<Rightarrow> ptr \<Rightarrow> ptr option \<Rightarrow> (ptr \<rightharpoonup> FileAttr)" where
  "set_next h p v = (case h p of None \<Rightarrow> h | Some a \<Rightarrow> h(p \<mapsto> a\<lparr>next := v\<rparr>))"

text \<open>
  \<open>file_attr_list_add\<close>.  With a non-null \<open>head\<close> it writes through \<open>flist->tail\<close>; a
  null \<open>tail\<close> there would be a null-pointer write, which is the result \<open>None\<close>.
\<close>

definition file_attr_list_add ::
  "FileAttrList \<Rightarrow> ptr \<Rightarrow> (ptr \<rightharpoonup> FileAttr) \<Rightarrow> (FileAttrList \<times> (ptr \<rightharpoonup> FileAttr)) option" where
  "file_attr_list_add fl attr h =
     (let h1 = set_next h attr None;
          n = length_l fl + 1
      in if head fl = None
         then Some (\<lparr>head = Some attr, tail = Some attr, length_l = n\<rparr>, h1)
         else (case tail fl of
                 None \<Rightarrow> None
               | Some t \<Rightarrow> Some (\<lparr>head = head fl, tail = Some attr, length_l = n\<rparr>,
                                 set_next h1 t (Some attr))))"

section \<open>Container parser\<close>

text \<open>
  \<open>struct Resource\<close>: the pool, the container stream, and the text written so far to
  the name list \<open>filenames.txt\<close>.
\<close>

record Resource =
  arena :: ArenaAllocator
  pakFile :: pak_stream
  filenameListSav :: "UCHAR list"

definition parse_magic :: "Resource \<Rightarrow> PakHeader \<Rightarrow> Resource \<times> PakHeader" where
  "parse_magic res header =
     (let (buf, n, f) = fread (magic header) 4 (pakFile res)
      in (res\<lparr>pakFile := f\<rparr>, header\<lparr>magic := decode_bytes buf 4\<rparr>))"

definition parse_version :: "Resource \<Rightarrow> PakHeader \<Rightarrow> Resource \<times> PakHeader" where
  "parse_version res header =
     (let (buf, n, f) = fread (version header) 4 (pakFile res)
      in (res\<lparr>pakFile := f\<rparr>, header\<lparr>version := decode_bytes buf 4\<rparr>))"

definition reach_pak_header_end :: "uninit \<Rightarrow> Resource \<Rightarrow> bool \<times> Resource" where
  "reach_pak_header_end u res =
     (let (buf, n, f) = fread [local_flag u] 1 (pakFile res)
      in (decode_one_byte (buf ! 0) = 0x80, res\<lparr>pakFile := f\<rparr>))"

text \<open>
  \<open>parse_file_name\<close> reads a byte of its own for the length, asks the pool for
  \<open>(filenameLen + 1) * sizeof(char)\<close> bytes (\<open>UINT32\<close> arithmetic, widened to
  \<open>size_t\<close>), writes the terminator, reads the name over the buffer and decodes
  \<open>filenameLen\<close> bytes of it, whatever \<open>fread\<close> returned.
\<close>

definition parse_file_name ::
  "uninit \<Rightarrow> (nat \<Rightarrow> bool) \<Rightarrow> Resource \<Rightarrow> pool_memory \<Rightarrow> FileAttr
     \<Rightarrow> fatal + (Resource \<times> pool_memory \<times> FileAttr)" where
  "parse_file_name u mem res m attr =
     (let (b, n, f1) = fread [local_byte u] 1 (pakFile res);
          filenameLen = (ucast (decode_one_byte (b ! 0)) :: UINT32)
      in case arena_malloc mem (arena res) (ucast (filenameLen + 1) * 1) of
           Inl e \<Rightarrow> Inl e
         | Inr (p, arena') \<Rightarrow>
             (let buf0 = pool_bytes u p (unat (filenameLen + 1));
                  buf1 = buf0[unat filenameLen := 0];
                  (buf2, n2, f2) = fread buf1 (unat filenameLen) f1;
                  buf3 = decode_bytes buf2 (unat filenameLen)
              in Inr (res\<lparr>arena := arena', pakFile := f2\<rparr>,
                      m\<lparr>str_at := (str_at m)(p \<mapsto> buf3)\<rparr>,
                      attr\<lparr>fileName := p\<rparr>)))"

text \<open>The bytes of a \<open>UINT32\<close> in memory, lowest first.\<close>

definition bytes_of_u32 :: "UINT32 \<Rightarrow> UCHAR list" where
  "bytes_of_u32 w = map (\<lambda>i. ucast (drop_bit (8 * i) w)) [0..<4]"

definition parse_file_size :: "Resource \<Rightarrow> FileAttr \<Rightarrow> Resource \<times> FileAttr" where
  "parse_file_size res attr =
     (let (buf, n, f) = fread (bytes_of_u32 (fileSize attr)) 4 (pakFile res)
      in (res\<lparr>pakFile := f\<rparr>, attr\<lparr>fileSize := le32 (decode_bytes buf 4)\<rparr>))"

definition parse_file_last_write_time :: "Resource \<Rightarrow> FileAttr \<Rightarrow> Resource \<times> FileAttr" where
  "parse_file_last_write_time res attr =
     (let (buf, n, f) = fread (lastWriteTime attr) 8 (pakFile res)
      in (res\<lparr>pakFile := f\<rparr>, attr\<lparr>lastWriteTime := decode_bytes buf 8\<rparr>))"

text \<open>
  What can end a run before \<open>main\<close> returns: \<open>abort()\<close> in the pool, or an access the
  C standard leaves undefined.
\<close>

datatype stop = Aborted | Undefined

text \<open>
  One pass through the body of the \<open>while (!feof(res->pakFile))\<close> loop of
  \<open>parse_all_file_attrs\<close>.  The flag says whether the pass left by \<open>break\<close>.
\<close>

definition parse_one_file_attr ::
  "uninit \<Rightarrow> (nat \<Rightarrow> bool) \<Rightarrow> Resource \<times> PakHeader \<times> pool_memory
     \<Rightarrow> stop + (bool \<times> Resource \<times> PakHeader \<times> pool_memory)" where
  "parse_one_file_attr u mem s =
     (case s of (res, header, m) \<Rightarrow>
        (case reach_pak_header_end u res of
           (True, res1) \<Rightarrow> Inr (True, res1, header, m)
         | (False, res1) \<Rightarrow>
             (case arena_malloc mem (arena res1) sizeof_FileAttr of
                Inl e \<Rightarrow> Inl Aborted
              | Inr (p, arena') \<Rightarrow>
                  (case parse_file_name u mem (res1\<lparr>arena := arena'\<rparr>) m (fresh_attr u p) of
                     Inl e \<Rightarrow> Inl Aborted
                   | Inr (res2, m2, attr2) \<Rightarrow>
                       (let (res3, attr3) = parse_file_size res2 attr2;
                            (res4, attr4) = parse_file_last_write_time res3 attr3;
                            h = (attr_at m2)(p \<mapsto> attr4)
                        in case file_attr_list_add (flist header) p h of
                             None \<Rightarrow> Inl Undefined
                           | Some (fl, h') \<Rightarrow>
                               Inr (False, res4, header\<lparr>flist := fl\<rparr>,
                                    m2\<lparr>attr_at := h'\<rparr>))))))"

text \<open>
  The loop \<open>while (!feof(res->pakFile))\<close> ends: every pass starts with a read of one
  byte, which either consumes a byte or sets the end-of-file indicator.
\<close>

definition stream_measure :: "pak_stream \<Rightarrow> nat" where
  "stream_measure f = length (content f) + (if eof f then 0 else 1)"

lemma fread_measure_le: "fread buf n f = (b, k, f') \<Longrightarrow> stream_measure f' \<le> stream_measure f"
  by (auto simp: fread_def stream_measure_def Let_def)

lemma fread1_measure_less:
  "fread buf (Suc 0) f = (b, k, f') \<Longrightarrow> \<not> eof f \<Longrightarrow> stream_measure f' < stream_measure f"
  by (cases "content f") (auto simp: fread_def stream_measure_def Let_def)

lemma reach_pak_header_end_measure:
  "reach_pak_header_end u res = (e, res') \<Longrightarrow> \<not> eof (pakFile res)
     \<Longrightarrow> stream_measure (pakFile res') < stream_measure (pakFile res)"
  by (auto simp: reach_pak_header_end_def Let_def split: prod.splits dest: fread1_measure_less)

lemma parse_file_name_measure:
  "parse_file_name u mem res m a = Inr (res', m', a')
     \<Longrightarrow> stream_measure (pakFile res') \<le> stream_measure (pakFile res)"
  by (auto simp: parse_file_name_def Let_def split: prod.splits sum.splits
           dest!: fread_measure_le)

lemma parse_file_size_measure:
  "parse_file_size res a = (res', a')
     \<Longrightarrow> stream_measure (pakFile res') \<le> stream_measure (pakFile res)"
  by (auto simp: parse_file_size_def Let_def split: prod.splits dest!: fread_measure_le)

lemma parse_file_last_write_time_measure:
  "parse_file_last_write_time res a = (res', a')
     \<Longrightarrow> stream_measure (pakFile res') \<le> stream_measure (pakFile res)"
  by (auto simp: parse_file_last_write_time_def Let_def split: prod.splits
           dest!: fread_measure_le)

lemma parse_one_file_attr_measure:
  assumes "parse_one_file_attr u mem (res, h0, m) = Inr (False, res', h1, m')"
    and "\<not> eof (pakFile res)"
  shows "stream_measure (pakFile res') < stream_measure (pakFile res)"
proof -
  from assms(1) obtain res1 p ar res2 m2 a2 res3 a3 a4 where
    r: "reach_pak_header_end u res = (False, res1)"
    and n: "parse_file_name u mem (res1\<lparr>arena := ar\<rparr>) m (fresh_attr u p) = Inr (res2, m2, a2)"
    and s: "parse_file_size res2 a2 = (res3, a3)"
    and t: "parse_file_last_write_time res3 a3 = (res', a4)"
    by (auto simp: parse_one_file_attr_def Let_def
             split: prod.splits sum.splits bool.splits option.splits)
  from reach_pak_header_end_measure[OF r assms(2)] parse_file_name_measure[OF n]
    parse_file_size_measure[OF s] parse_file_last_write_time_measure[OF t]
  show ?thesis by simp
qed

function parse_all_file_attrs ::
  "uninit \<Rightarrow> (nat \<Rightarrow> bool) \<Rightarrow> Resource \<times> PakHeader \<times> pool_memory
     \<Rightarrow> stop + (Resource \<times> PakHeader \<times> pool_memory)" where
  "parse_all_file_attrs u mem s =
     (if eof (pakFile (fst s)) then Inr s
      else (case parse_one_file_attr u mem s of
              Inl e \<Rightarrow> Inl e
            | Inr r \<Rightarrow> (if fst r then Inr (snd r) else parse_all_file_attrs u mem (snd r))))"
  by pat_completeness auto
termination
proof (relation "measure (\<lambda>(u, mem, s). stream_measure (pakFile (fst s)))", goal_cases)
  case 1
  show ?case by simp
next
  case (2 u mem s r)
  then show ?case
    using parse_one_file_attr_measure[of u mem "fst s" "fst (snd s)" "snd (snd s)"
        "fst (snd r)" "fst (snd (snd r))" "snd (snd (snd r))"]
    by (cases r) (auto split: prod.splits)
qed

declare parse_all_file_attrs.simps [simp del]

definition parse_pak_header ::
  "uninit \<Rightarrow> (nat \<Rightarrow> bool) \<Rightarrow> Resource \<times> PakHeader \<times> pool_memory
     \<Rightarrow> stop + (Resource \<times> PakHeader \<times> pool_memory)" where
  "parse_pak_header u mem s =
     (case s of (res, header, m) \<Rightarrow>
        (let (res1, header1) = parse_magic res header;
             (res2, header2) = parse_version res1 header1
         in parse_all_file_attrs u mem (res2, header2, m)))"

section \<open>The file system\<close>

text \<open>
  The Windows calls the extractor makes, over a state that holds the directories, the
  files with their content and the last-write times that were set.  A path is the bytes
  of a C string.  Besides what the state decides (a name that is taken), each call can
  be refused by the system for a reason of its own; the \<open>refuse\<close> fields say where.
\<close>

type_synonym cstring = "UCHAR list"

record filesystem =
  dirs :: "cstring set"
  files :: "cstring \<rightharpoonup> UCHAR list"
  times :: "cstring \<rightharpoonup> UCHAR list"
  refuse_open :: "cstring \<Rightarrow> bool"
  refuse_dir :: "cstring \<Rightarrow> bool"
  refuse_file :: "cstring \<Rightarrow> bool"
  refuse_write :: "cstring \<Rightarrow> nat \<Rightarrow> bool"
  refuse_time :: "cstring \<Rightarrow> bool"

text \<open>The C string that starts at the front of a buffer.\<close>

definition c_str :: "UCHAR list \<Rightarrow> cstring" where
  "c_str buf = takeWhile (\<lambda>c. c \<noteq> 0) buf"

definition is_dir_exist :: "filesystem \<Rightarrow> cstring \<Rightarrow> bool" where
  "is_dir_exist fs path = (path \<in> dirs fs)"

definition CreateDirectory :: "cstring \<Rightarrow> filesystem \<Rightarrow> filesystem option" where
  "CreateDirectory path fs =
     (if path \<in> dirs fs \<or> files fs path \<noteq> None \<or> refuse_dir fs path then None
      else Some (fs\<lparr>dirs := insert path (dirs fs)\<rparr>))"

text \<open>\<open>CreateFile\<close> with \<open>CREATE_NEW\<close>; the handle of the new file is its path.\<close>

definition CreateFile :: "cstring \<Rightarrow> filesystem \<Rightarrow> filesystem option" where
  "CreateFile path fs =
     (if files fs path \<noteq> None \<or> path \<in> dirs fs \<or> refuse_file fs path then None
      else Some (fs\<lparr>files := (files fs)(path \<mapsto> [])\<rparr>))"

definition WriteFile :: "cstring \<Rightarrow> UCHAR list \<Rightarrow> nat \<Rightarrow> filesystem \<Rightarrow> filesystem option" where
  "WriteFile hFile buf n fs =
     (case files fs hFile of
        None \<Rightarrow> None
      | Some old \<Rightarrow>
          if refuse_write fs hFile (length old) then None
          else Some (fs\<lparr>files := (files fs)(hFile \<mapsto> old @ take n buf)\<rparr>))"

definition SetFileTime :: "cstring \<Rightarrow> UCHAR list \<Rightarrow> filesystem \<Rightarrow> filesystem option" where
  "SetFileTime hFile t fs =
     (if refuse_time fs hFile then None else Some (fs\<lparr>times := (times fs)(hFile \<mapsto> t)\<rparr>))"

text \<open>
  \<open>fopen(path, "rb")\<close> gives a stream over the file's bytes, \<open>fopen(path, "w")\<close> creates
  the file or empties it; \<open>None\<close> is the \<open>NULL\<close> result.
\<close>

definition fopen_rb :: "cstring \<Rightarrow> filesystem \<Rightarrow> pak_stream option" where
  "fopen_rb path fs =
     (case files fs path of
        None \<Rightarrow> None
      | Some bytes \<Rightarrow> if refuse_open fs path then None
                      else Some \<lparr>content = bytes, eof = False\<rparr>)"

definition fopen_w :: "cstring \<Rightarrow> filesystem \<Rightarrow> filesystem option" where
  "fopen_w path fs =
     (if path \<in> dirs fs \<or> refuse_open fs path then None
      else Some (fs\<lparr>files := (files fs)(path \<mapsto> [])\<rparr>))"

section \<open>Extraction\<close>

definition MAX_PATH :: nat where
  "MAX_PATH = 260"

text \<open>
  The two copying loops of \<open>build_complete_path\<close>: \<open>*buf = *src; ++buf; ++src\<close> until the
  source's terminator.  \<open>i\<close> is how far \<open>buf\<close> has advanced.  The function never
  looks at its parameter \<open>len\<close>; a write past the end of the array is the result \<open>None\<close>.
\<close>

fun copy_chars :: "UCHAR list \<Rightarrow> nat \<Rightarrow> cstring \<Rightarrow> (UCHAR list \<times> nat) option" where
  "copy_chars buf i [] = Some (buf, i)"
| "copy_chars buf i (c # cs) =
     (if i < length buf then copy_chars (buf[i := c]) (Suc i) cs else None)"

definition put_char :: "UCHAR list \<Rightarrow> nat \<Rightarrow> UCHAR \<Rightarrow> (UCHAR list \<times> nat) option" where
  "put_char buf i c = (if i < length buf then Some (buf[i := c], Suc i) else None)"

text \<open>
  \<open>build_complete_path\<close>.  After the first loop \<open>--extractPath\<close> steps back to the last
  character of the root; with an empty root that is the byte before the string, an
  access outside it.
\<close>

definition build_complete_path :: "UCHAR list \<Rightarrow> nat \<Rightarrow> cstring \<Rightarrow> cstring \<Rightarrow> stop + UCHAR list" where
  "build_complete_path buf len extractPath name =
     (case copy_chars buf 0 extractPath of
        None \<Rightarrow> Inl Undefined
      | Some (buf1, i1) \<Rightarrow>
          if extractPath = [] then Inl Undefined
          else (case (if last extractPath \<noteq> 0x5C then put_char buf1 i1 0x5C
                      else Some (buf1, i1)) of
                  None \<Rightarrow> Inl Undefined
                | Some (buf2, i2) \<Rightarrow>
                    (case copy_chars buf2 i2 name of
                       None \<Rightarrow> Inl Undefined
                     | Some (buf3, i3) \<Rightarrow>
                         (case put_char buf3 i3 0 of
                            None \<Rightarrow> Inl Undefined
                          | Some (buf4, i4) \<Rightarrow> Inr buf4))))"

text \<open>
  \<open>recursive_create_parent_dirs\<close>: \<open>pre\<close> is the part of the path before the cursor.  At
  every backslash the path is cut there and the directory created unless it exists.
\<close>

fun create_parent_dirs :: "cstring \<Rightarrow> cstring \<Rightarrow> filesystem \<Rightarrow> bool \<times> filesystem" where
  "create_parent_dirs pre [] fs = (True, fs)"
| "create_parent_dirs pre (c # cs) fs =
     (if c = 0x5C
      then (if \<not> is_dir_exist fs pre
            then (case CreateDirectory pre fs of
                    None \<Rightarrow> (False, fs)
                  | Some fs' \<Rightarrow> create_parent_dirs (pre @ [c]) cs fs')
            else create_parent_dirs (pre @ [c]) cs fs)
      else create_parent_dirs (pre @ [c]) cs fs)"

definition recursive_create_parent_dirs :: "cstring \<Rightarrow> filesystem \<Rightarrow> bool \<times> filesystem" where
  "recursive_create_parent_dirs path fs = create_parent_dirs [] path fs"

text \<open>
  The \<open>while (fileSize > 0)\<close> loop of \<open>parse_and_extract_one_file\<close>.  The state is
  what is left of \<open>fileSize\<close>, the working buffer, the resources and the file system; the flag of the
  result is false when the loop was left by \<open>goto tidy_up\<close>.  The loop has no bound of
  its own, so not returning is the value \<open>None\<close>.
\<close>

partial_function (option) copy_payload ::
  "size_t \<Rightarrow> cstring \<Rightarrow> UINT32 \<times> UCHAR list \<times> Resource \<times> filesystem
     \<Rightarrow> (bool \<times> UCHAR list \<times> Resource \<times> filesystem) option" where
  "copy_payload len hFile s =
     (case s of (fsize, buf, res, fs) \<Rightarrow>
        if fsize > 0
        then (let (buf1, n, f1) = (if ucast fsize < len
                                   then fread buf (unat fsize) (pakFile res)
                                   else fread buf (unat len) (pakFile res));
                  readLen = (of_nat n :: UINT32);
                  buf2 = decode_bytes buf1 (unat readLen)
              in case WriteFile hFile buf2 (unat readLen) fs of
                   None \<Rightarrow> Some (False, buf2, res\<lparr>pakFile := f1\<rparr>, fs)
                 | Some fs' \<Rightarrow>
                     copy_payload len hFile (fsize - readLen, buf2, res\<lparr>pakFile := f1\<rparr>, fs'))
        else Some (True, buf, res, fs))"

declare copy_payload.simps [code]

text \<open>
  \<open>parse_and_extract_one_file\<close>.  The two early \<open>return\<close>s leave the stream where it
  was.  A failed \<open>SetFileTime\<close> only prints a message.  The result is the working buffer,
  the resources and the file system; \<open>None\<close> when the copying loop does not return.
\<close>

definition parse_and_extract_one_file ::
  "uninit \<Rightarrow> pool_memory \<Rightarrow> Resource \<Rightarrow> FileAttr \<Rightarrow> cstring \<Rightarrow> UCHAR list \<Rightarrow> size_t
     \<Rightarrow> filesystem \<Rightarrow> (stop + (UCHAR list \<times> Resource \<times> filesystem)) option" where
  "parse_and_extract_one_file u m res attr extractPath buf len fs =
     (case str_at m (fileName attr) of
        None \<Rightarrow> Some (Inl Undefined)
      | Some name \<Rightarrow>
          (case build_complete_path (map (local_path u) [0..<MAX_PATH]) MAX_PATH
                  extractPath (c_str name) of
             Inl e \<Rightarrow> Some (Inl e)
           | Inr pathbuf \<Rightarrow>
               (case recursive_create_parent_dirs (c_str pathbuf) fs of
                  (False, fs1) \<Rightarrow> Some (Inr (buf, res, fs1))
                | (True, fs1) \<Rightarrow>
                    (case CreateFile (c_str pathbuf) fs1 of
                       None \<Rightarrow> Some (Inr (buf, res, fs1))
                     | Some fs2 \<Rightarrow>
                         (case copy_payload len (c_str pathbuf) (fileSize attr, buf, res, fs2) of
                            None \<Rightarrow> None
                          | Some (False, buf', res', fs3) \<Rightarrow> Some (Inr (buf', res', fs3))
                          | Some (True, buf', res', fs3) \<Rightarrow>
                              (case SetFileTime (c_str pathbuf) (lastWriteTime attr) fs3 of
                                 None \<Rightarrow> Some (Inr (buf', res', fs3))
                               | Some fs4 \<Rightarrow> Some (Inr (buf', res', fs4))))))))"

text \<open>
  The loop \<open>while (attr != NULL)\<close> of \<open>extract_files\<close>, following \<open>attr->next\<close> through
  pool memory.
\<close>

partial_function (option) extract_each ::
  "uninit \<Rightarrow> pool_memory \<Rightarrow> cstring \<Rightarrow> size_t \<Rightarrow> ptr option
     \<Rightarrow> UCHAR list \<times> Resource \<times> filesystem
     \<Rightarrow> (stop + (UCHAR list \<times> Resource \<times> filesystem)) option" where
  "extract_each u m extractPath len attr s =
     (case attr of
        None \<Rightarrow> Some (Inr s)
      | Some p \<Rightarrow>
          (case attr_at m p of
             None \<Rightarrow> Some (Inl Undefined)
           | Some a \<Rightarrow>
               (case s of (buf, res, fs) \<Rightarrow>
                  (case parse_and_extract_one_file u m res a extractPath buf len fs of
                     None \<Rightarrow> None
                   | Some (Inl e) \<Rightarrow> Some (Inl e)
                   | Some (Inr s') \<Rightarrow> extract_each u m extractPath len (next a) s'))))"

declare extract_each.simps [code]

definition extract_files ::
  "uninit \<Rightarrow> (nat \<Rightarrow> bool) \<Rightarrow> pool_memory \<Rightarrow> Resource \<Rightarrow> PakHeader \<Rightarrow> cstring \<Rightarrow> filesystem
     \<Rightarrow> (stop + (Resource \<times> filesystem)) option" where
  "extract_files u mem m res header extractPath fs =
     (case arena_malloc mem (arena res) (8192 * 1) of
        Inl e \<Rightarrow> Some (Inl Aborted)
      | Inr (p, arena') \<Rightarrow>
          (case extract_each u m extractPath 8192 (head (flist header))
                  (pool_bytes u p 8192, res\<lparr>arena := arena'\<rparr>, fs) of
             None \<Rightarrow> None
           | Some (Inl e) \<Rightarrow> Some (Inl e)
           | Some (Inr (buf, res', fs')) \<Rightarrow> Some (Inr (res', fs'))))"

text \<open>
  \<open>save_file_name_list\<close> prints each record with \<open>"%s, %ld\n"\<close>; \<open>long\<close> has 32 bits on
  Windows, so \<open>%ld\<close> shows the size as a signed number.
\<close>

fun decimal :: "nat \<Rightarrow> UCHAR list" where
  "decimal n = (if n < 10 then [of_nat (48 + n)]
                else decimal (n div 10) @ [of_nat (48 + n mod 10)])"

definition print_long :: "UINT32 \<Rightarrow> UCHAR list" where
  "print_long w = (if sint w < 0 then 0x2D # decimal (nat (- sint w)) else decimal (nat (sint w)))"

partial_function (option) save_each ::
  "pool_memory \<Rightarrow> ptr option \<Rightarrow> UCHAR list \<Rightarrow> (stop + UCHAR list) option" where
  "save_each m attr out =
     (case attr of
        None \<Rightarrow> Some (Inr out)
      | Some p \<Rightarrow>
          (case attr_at m p of
             None \<Rightarrow> Some (Inl Undefined)
           | Some a \<Rightarrow>
               (case str_at m (fileName a) of
                  None \<Rightarrow> Some (Inl Undefined)
                | Some name \<Rightarrow>
                    save_each m (next a)
                      (out @ c_str name @ [0x2C, 0x20] @ print_long (fileSize a) @ [0x0A]))))"

declare save_each.simps [code]

definition save_file_name_list ::
  "pool_memory \<Rightarrow> Resource \<Rightarrow> PakHeader \<Rightarrow> (stop + Resource) option" where
  "save_file_name_list m res header =
     (case save_each m (head (flist header)) (filenameListSav res) of
        None \<Rightarrow> None
      | Some (Inl e) \<Rightarrow> Some (Inl e)
      | Some (Inr out) \<Rightarrow> Some (Inr (res\<lparr>filenameListSav := out\<rparr>)))"

section \<open>The program\<close>

text \<open>
  \<open>resource_init\<close>.  Nothing has been read from the container when the name list is
  opened, so if both paths name one file the stream finds it emptied.
\<close>

definition resource_init ::
  "bool \<Rightarrow> bool \<Rightarrow> cstring \<Rightarrow> cstring \<Rightarrow> filesystem \<Rightarrow> (Resource \<times> filesystem) option" where
  "resource_init handle_ok block_ok pakFilePath filenameListSavPath fs =
     (case arena_create handle_ok block_ok 8192 of
        None \<Rightarrow> None
      | Some a \<Rightarrow>
          (case fopen_rb pakFilePath fs of
             None \<Rightarrow> None
           | Some f \<Rightarrow>
               (case fopen_w filenameListSavPath fs of
                  None \<Rightarrow> None
                | Some fs' \<Rightarrow>
                    Some (\<lparr>arena = a,
                           pakFile = (if pakFilePath = filenameListSavPath
                                      then f\<lparr>content := []\<rparr> else f),
                           filenameListSav = []\<rparr>, fs'))))"

text \<open>\<open>resource_free\<close> closes the name list, which puts its text on disk.\<close>

definition resource_free :: "cstring \<Rightarrow> Resource \<Rightarrow> filesystem \<Rightarrow> filesystem" where
  "resource_free filenameListSavPath res fs =
     fs\<lparr>files := (files fs)(filenameListSavPath \<mapsto> filenameListSav res)\<rparr>"

definition pak_header_init :: "uninit \<Rightarrow> PakHeader" where
  "pak_header_init u =
     \<lparr>magic = map (local_header u) [0..<4], version = map (local_header u) [4..<8],
      flist = file_attr_list_init\<rparr>"

definition filenames_txt :: cstring where
  "filenames_txt = map of_char ''filenames.txt''"

text \<open>
  A run of the program: the arguments, the file system it starts on, what uninitialised
  memory holds, and what the C library's \<open>malloc\<close> grants.
\<close>

record world =
  argv :: "cstring list"
  disk :: filesystem
  garbage :: uninit
  malloc_handle :: bool
  malloc_block :: bool
  grant :: "nat \<Rightarrow> bool"

text \<open>
  How a run ends: \<open>main\<close> returns a code and leaves a file system, or the run is
  stopped.  A run that does neither is the value \<open>None\<close> of \<open>main\<close>.
\<close>

datatype outcome = Exit int filesystem | Stopped stop

definition main :: "world \<Rightarrow> outcome option" where
  "main w =
     (if length (argv w) \<noteq> 3 then Some (Exit 1 (disk w))
      else if is_dir_exist (disk w) (argv w ! 2) then Some (Exit 1 (disk w))
      else (case resource_init (malloc_handle w) (malloc_block w) (argv w ! 1)
                   filenames_txt (disk w) of
              None \<Rightarrow> Some (Exit 1 (disk w))
            | Some (res, fs) \<Rightarrow>
                (case parse_pak_header (garbage w) (grant w)
                        (res, pak_header_init (garbage w),
                         \<lparr>attr_at = Map.empty, str_at = Map.empty\<rparr>) of
                   Inl e \<Rightarrow> Some (Stopped e)
                 | Inr (res1, header, m) \<Rightarrow>
                     (case save_file_name_list m res1 header of
                        None \<Rightarrow> None
                      | Some (Inl e) \<Rightarrow> Some (Stopped e)
                      | Some (Inr res2) \<Rightarrow>
                          (case extract_files (garbage w) (grant w) m res2 header
                                  (argv w ! 2) fs of
                             None \<Rightarrow> None
                           | Some (Inl e) \<Rightarrow> Some (Stopped e)
                           | Some (Inr (res3, fs')) \<Rightarrow>
                               Some (Exit 0 (resource_free filenames_txt res3 fs')))))))"

section \<open>Reference definitions for the pool\<close>

text \<open>
  The allocation the specification describes, in its words: scan the blocks most recent
  first for one with \<open>capacity - used \<ge> size\<close>, the sizes read as numbers; serve the
  request there and bump \<open>used\<close> by \<open>size\<close>; otherwise link a new block of capacity
  \<open>max(defaultBlockSize, size)\<close> with \<open>used = size\<close>.
\<close>

fun spec_scan :: "ArenaBlockHeader list \<Rightarrow> size_t \<Rightarrow> (ptr \<times> ArenaBlockHeader list) option" where
  "spec_scan [] sz = None"
| "spec_scan (b # bs) sz =
     (if uint (capacity b) - uint (used b) \<ge> uint sz
      then Some ((length bs, used b), b\<lparr>used := used b + sz\<rparr> # bs)
      else (case spec_scan bs sz of
              None \<Rightarrow> None
            | Some (p, bs') \<Rightarrow> Some (p, b # bs')))"

definition spec_allocate ::
  "(nat \<Rightarrow> bool) \<Rightarrow> ArenaAllocator \<Rightarrow> size_t \<Rightarrow> fatal + (ptr \<times> ArenaAllocator)" where
  "spec_allocate mem a sz =
     (case spec_scan (blocks a) sz of
        Some (p, bs') \<Rightarrow> Inr (p, a\<lparr>blocks := bs'\<rparr>)
      | None \<Rightarrow>
          if mem (length (blocks a))
          then Inr ((length (blocks a), 0),
                    a\<lparr>blocks := \<lparr>used = sz, capacity = max (blockSize a) sz\<rparr> # blocks a,
                      blockNum := blockNum a + 1\<rparr>)
          else Inl OutOfMemory)"

text \<open>No block of the chain has \<open>used + size\<close> beyond the range of \<open>size_t\<close>.\<close>

definition no_wrap :: "ArenaBlockHeader list \<Rightarrow> size_t \<Rightarrow> bool" where
  "no_wrap bs sz = list_all (\<lambda>b. unat (used b) + unat sz < 2 ^ 64) bs"

text \<open>The pool invariant: \<open>used \<le> capacity\<close> in every block.\<close>

definition arena_inv :: "ArenaAllocator \<Rightarrow> bool" where
  "arena_inv a = list_all (\<lambda>b. used b \<le> capacity b) (blocks a)"

text \<open>
  A span is what \<open>arena_malloc\<close> returns for a request: the pointer and the size asked
  for.  Two spans overlap when they lie in one block and share a byte.
\<close>

type_synonym span = "ptr \<times> size_t"

definition spans_overlap :: "span \<Rightarrow> span \<Rightarrow> bool" where
  "spans_overlap s t =
     (fst (fst s) = fst (fst t) \<and> snd s \<noteq> 0 \<and> snd t \<noteq> 0 \<and>
      unat (snd (fst s)) < unat (snd (fst t)) + unat (snd t) \<and>
      unat (snd (fst t)) < unat (snd (fst s)) + unat (snd s))"

text \<open>A sequence of requests served one after the other, with the spans returned.\<close>

fun arena_run ::
  "(nat \<Rightarrow> bool) \<Rightarrow> ArenaAllocator \<Rightarrow> size_t list \<Rightarrow> fatal + (span list \<times> ArenaAllocator)" where
  "arena_run mem a [] = Inr ([], a)"
| "arena_run mem a (sz # szs) =
     (case arena_malloc mem a sz of
        Inl e \<Rightarrow> Inl e
      | Inr (p, a') \<Rightarrow>
          (case arena_run mem a' szs of
             Inl e \<Rightarrow> Inl e
           | Inr (ss, a'') \<Rightarrow> Inr ((p, sz) # ss, a'')))"

fun pairwise_disjoint :: "span list \<Rightarrow> bool" where
  "pairwise_disjoint [] = True"
| "pairwise_disjoint (s # ss) = (list_all (\<lambda>t. \<not> spans_overlap s t) ss \<and> pairwise_disjoint ss)"

text \<open>
  A span is covered when it lies below the \<open>used\<close> mark of its block.  A pool is
  bounded when it keeps the invariant and every capacity is below \<open>2^63\<close>, so that a
  request below \<open>2^63\<close> cannot wrap.
\<close>

definition covered :: "ArenaBlockHeader list \<Rightarrow> span \<Rightarrow> bool" where
  "covered bs s =
     (fst (fst s) < length bs \<and>
      unat (snd (fst s)) + unat (snd s) \<le> unat (used (rev bs ! fst (fst s))))"

definition arena_bounded :: "ArenaAllocator \<Rightarrow> bool" where
  "arena_bounded a =
     (unat (blockSize a) < 2 ^ 63 \<and>
      list_all (\<lambda>b. used b \<le> capacity b \<and> unat (capacity b) < 2 ^ 63) (blocks a))"

section \<open>Reference definitions for names and paths\<close>

text \<open>
  The byte \<open>parse_file_name\<close> takes for the length of the name: the next byte of the
  stream, or what its local variable held when the stream has none left.
\<close>

definition length_byte :: "uninit \<Rightarrow> pak_stream \<Rightarrow> UCHAR" where
  "length_byte u f = (case content f of [] \<Rightarrow> local_byte u | x # xs \<Rightarrow> x)"

text \<open>
  The destination path in words: the root, one backslash unless the root ends in one,
  then the name.
\<close>

definition joined :: "cstring \<Rightarrow> cstring \<Rightarrow> cstring" where
  "joined root name = root @ (if last root \<noteq> 0x5C then [0x5C] else []) @ name"

section \<open>Reference definitions for the container format\<close>

text \<open>
  A record as the table declares it: name, size, last-write time.  In the file it is
  the flag byte that \<open>reach_pak_header_end\<close> reads, a length byte, the name, the four
  bytes of the size (lowest first) and the eight bytes of the time, each byte encoded.  The
  codec is its own inverse, so encoding is \<open>decode_one_byte\<close> again.
\<close>

type_synonym entry = "UCHAR list \<times> UINT32 \<times> UCHAR list"

definition plain_record :: "UCHAR \<Rightarrow> entry \<Rightarrow> UCHAR list" where
  "plain_record flag e =
     (case e of (nm, sz, tm) \<Rightarrow> flag # of_nat (length nm) # nm @ bytes_of_u32 sz @ tm)"

text \<open>
  The record list as a sequence of addresses: \<open>chain h c ps\<close> says that following
  \<open>next\<close> from \<open>c\<close> visits exactly the structs at \<open>ps\<close> and then reaches the null
  pointer.  \<open>list_inv\<close> is the shape \<open>file_attr_list_add\<close> keeps: a chain from \<open>head\<close>
  without repetition, \<open>tail\<close> at its last struct, \<open>length\<close> its number of structs.
\<close>

fun chain :: "(ptr \<rightharpoonup> FileAttr) \<Rightarrow> ptr option \<Rightarrow> ptr list \<Rightarrow> bool" where
  "chain h c [] = (c = None)"
| "chain h c (p # ps) =
     (c = Some p \<and> (case h p of None \<Rightarrow> False | Some a \<Rightarrow> chain h (next a) ps))"

definition list_inv :: "FileAttrList \<Rightarrow> (ptr \<rightharpoonup> FileAttr) \<Rightarrow> ptr list \<Rightarrow> bool" where
  "list_inv fl h ps =
     (chain h (head fl) ps \<and> distinct ps \<and>
      tail fl = (if ps = [] then None else Some (last ps)) \<and>
      length_l fl = of_nat (length ps))"

text \<open>Two structs that differ at most in \<open>next\<close>.\<close>

definition same_fields :: "FileAttr option \<Rightarrow> FileAttr option \<Rightarrow> bool" where
  "same_fields x y =
     (map_option (\<lambda>a. (fileName a, fileSize a, lastWriteTime a)) x
      = map_option (\<lambda>a. (fileName a, fileSize a, lastWriteTime a)) y)"


text \<open>
  The struct at \<open>p\<close> holds the entry \<open>e\<close>: its name buffer is the name and the
  terminator, its size and time are the entry's.  It is owned when the struct and the
  name buffer lie in covered pool memory.  \<open>parse_inv\<close> is what every pass of the
  record-table loop keeps.
\<close>

definition holds :: "pool_memory \<Rightarrow> ptr \<Rightarrow> entry \<Rightarrow> bool" where
  "holds m p e =
     (case attr_at m p of
        None \<Rightarrow> False
      | Some a \<Rightarrow> str_at m (fileName a) = Some (fst e @ [0]) \<and> fileSize a = fst (snd e) \<and>
                  lastWriteTime a = snd (snd e))"

definition owned :: "ArenaBlockHeader list \<Rightarrow> pool_memory \<Rightarrow> ptr \<Rightarrow> entry \<Rightarrow> bool" where
  "owned bs m p e =
     (covered bs (p, sizeof_FileAttr) \<and>
      (case attr_at m p of
         None \<Rightarrow> False
       | Some a \<Rightarrow> covered bs (fileName a, of_nat (length (fst e) + 1))))"

definition parse_inv :: "Resource \<Rightarrow> PakHeader \<Rightarrow> pool_memory \<Rightarrow> ptr list \<Rightarrow> entry list \<Rightarrow> bool" where
  "parse_inv res header m ps es =
     (list_inv (flist header) (attr_at m) ps \<and>
      list_all2 (\<lambda>p e. holds m p e \<and> owned (blocks (arena res)) m p e) ps es \<and>
      arena_bounded (arena res) \<and> list_all (\<lambda>e. length (fst e) \<le> 255) es)"

text \<open>
  The record table of a container: for each record its flag byte and its entry.  The
  table is well formed when no flag is the end mark \<open>0x80\<close>, every name fits the length
  byte and every time has eight bytes.
\<close>

definition table_bytes :: "(UCHAR \<times> entry) list \<Rightarrow> UCHAR list" where
  "table_bytes tab = concat (map (\<lambda>(flag, e). plain_record flag e) tab)"

definition wf_table :: "(UCHAR \<times> entry) list \<Rightarrow> bool" where
  "wf_table tab =
     list_all (\<lambda>(flag, nm, sz, tm). flag \<noteq> 0x80 \<and> length nm \<le> 255 \<and> length tm = 8) tab"

text \<open>
  Walking the list from \<open>c\<close> along \<open>next\<close> meets exactly the entries \<open>es\<close>, in this
  order, and then the null pointer.
\<close>

fun entries_at :: "pool_memory \<Rightarrow> ptr option \<Rightarrow> entry list \<Rightarrow> bool" where
  "entries_at m c [] = (c = None)"
| "entries_at m c (e # es) =
     (case c of
        None \<Rightarrow> False
      | Some p \<Rightarrow>
          (case attr_at m p of
             None \<Rightarrow> False
           | Some a \<Rightarrow>
               str_at m (fileName a) = Some (fst e @ [0]) \<and> fileSize a = fst (snd e) \<and>
               lastWriteTime a = snd (snd e) \<and> entries_at m (next a) es))"

text \<open>
  A small container for the closed instances below: two records, \<open>ab\<close> of five bytes
  and \<open>c\<close> of one byte, and some content for uninitialised memory.
\<close>

definition example_uninit :: uninit where
  "example_uninit =
     \<lparr>local_flag = 0xAA, local_byte = 0xBB, local_header = (\<lambda>i. 0xCC),
      local_path = (\<lambda>i. 0xEE), pool_byte = (\<lambda>p. 0xDD)\<rparr>"

definition example_table :: "(UCHAR \<times> entry) list" where
  "example_table =
     [(0, [0x61, 0x62], 5, [1, 2, 3, 4, 5, 6, 7, 8]),
      (0, [0x63], 1, [1, 2, 3, 4, 5, 6, 7, 9])]"

text \<open>
  The record-table step as the specification words it: one byte is read and decoded;
  \<open>0x80\<close> ends the table, any other value is the length \<open>L\<close> of the name, and the
  next \<open>L\<close> bytes, decoded, are the name.  The result is that name, \<open>None\<close> at the end
  of the table.
\<close>

definition spec_record_name :: "UCHAR list \<Rightarrow> UCHAR list option" where
  "spec_record_name bytes =
     (case bytes of
        [] \<Rightarrow> None
      | b # rest \<Rightarrow>
          if decode_one_byte b = 0x80 then None
          else Some (map decode_one_byte (take (unat (decode_one_byte b)) rest)))"

text \<open>
  The name a pass of the loop stored for the record it appended: the buffer of the
  struct at \<open>tail\<close>, without its terminator.
\<close>

definition appended_name ::
  "stop + (bool \<times> Resource \<times> PakHeader \<times> pool_memory) \<Rightarrow> UCHAR list option" where
  "appended_name r =
     (case r of
        Inl e \<Rightarrow> None
      | Inr (finished, res, header, m) \<Rightarrow>
          if finished then None
          else (case tail (flist header) of
                  None \<Rightarrow> None
                | Some p \<Rightarrow>
                    (case attr_at m p of
                       None \<Rightarrow> None
                     | Some a \<Rightarrow> map_option butlast (str_at m (fileName a)))))"

text \<open>The resources right after \<open>resource_init\<close>, on a container of the given bytes.\<close>

definition example_resource :: "UCHAR list \<Rightarrow> Resource" where
  "example_resource bytes =
     \<lparr>arena = \<lparr>blocks = [\<lparr>used = 0, capacity = 8192\<rparr>], blockSize = 8192, blockNum = 1\<rparr>,
      pakFile = \<lparr>content = bytes, eof = False\<rparr>, filenameListSav = []\<rparr>"

definition empty_memory :: pool_memory where
  "empty_memory = \<lparr>attr_at = Map.empty, str_at = Map.empty\<rparr>"

section \<open>Reference definitions for extraction\<close>

text \<open>
  A state of the copying loop on a truncated container: the record still wants more
  bytes than the stream has left, and nothing stops the output file from being written
  (it exists, and \<open>WriteFile\<close> is never refused on it).
\<close>

definition truncated :: "size_t \<Rightarrow> cstring \<Rightarrow> UINT32 \<times> UCHAR list \<times> Resource \<times> filesystem \<Rightarrow> bool" where
  "truncated len h s =
     (case s of (fsize, buf, res, fs) \<Rightarrow>
        len = 8192 \<and> length (content (pakFile res)) < unat fsize \<and>
        files fs h \<noteq> None \<and> (\<forall>k. \<not> refuse_write fs h k))"

text \<open>The line \<open>save_file_name_list\<close> prints for an entry.\<close>

definition name_line :: "entry \<Rightarrow> UCHAR list" where
  "name_line e = c_str (fst e @ [0]) @ [0x2C, 0x20] @ print_long (fst (snd e)) @ [0x0A]"

text \<open>
  What extraction does to the stream and the file system, entry by entry, when
  \<open>WriteFile\<close> is never refused: a record whose directories or file cannot be created is
  passed over with the stream where it was; a created file receives the next \<open>size\<close>
  decoded bytes of the stream and the record's time; a record that wants more bytes
  than the stream holds keeps the loop from returning (\<open>None\<close>).
\<close>

fun extract_entries ::
  "cstring \<Rightarrow> entry list \<Rightarrow> UCHAR list \<times> filesystem \<Rightarrow> (stop + (UCHAR list \<times> filesystem)) option" where
  "extract_entries root [] s = Some (Inr s)"
| "extract_entries root (e # es) s =
     (let path = joined root (c_str (fst e @ [0])); sz = unat (fst (snd e))
      in if root = [] \<or> MAX_PATH \<le> length path then Some (Inl Undefined)
         else (case recursive_create_parent_dirs path (snd s) of
                 (False, fs1) \<Rightarrow> extract_entries root es (fst s, fs1)
               | (True, fs1) \<Rightarrow>
                   (case CreateFile path fs1 of
                      None \<Rightarrow> extract_entries root es (fst s, fs1)
                    | Some fs2 \<Rightarrow>
                        if length (fst s) < sz then None
                        else (let fs3 = fs2\<lparr>files := (files fs2)(path \<mapsto>
                                             map decode_one_byte (take sz (fst s)))\<rparr>
                              in extract_entries root es
                                   (drop sz (fst s),
                                    case SetFileTime path (snd (snd e)) fs3 of
                                      None \<Rightarrow> fs3
                                    | Some fs4 \<Rightarrow> fs4)))))"

text \<open>
  Every destination path, with its terminator, fits \<open>char path[MAX_PATH]\<close>, and the root
  is a non-empty C string.
\<close>

definition paths_fit :: "cstring \<Rightarrow> entry list \<Rightarrow> bool" where
  "paths_fit root es =
     (root \<noteq> [] \<and> 0 \<notin> set root \<and>
      list_all (\<lambda>e. length (joined root (c_str (fst e @ [0]))) < MAX_PATH) es)"

text \<open>
  The bytes of a container: magic, version, the record table and the end mark \<open>0x80\<close>,
  encoded, and then the payload as it is stored.
\<close>

definition container :: "UCHAR list \<Rightarrow> UCHAR list \<Rightarrow> (UCHAR \<times> entry) list \<Rightarrow> UCHAR list \<Rightarrow> UCHAR list" where
  "container mg vs tab payload = map decode_one_byte (mg @ vs @ table_bytes tab @ [0x80]) @ payload"

text \<open>
  The three conditions on which \<open>main\<close> returns 1: a wrong argument count, an extraction
  directory that exists, or a pool, container or name list that cannot be set up.
\<close>

definition refused :: "world \<Rightarrow> bool" where
  "refused w =
     (length (argv w) \<noteq> 3 \<or> is_dir_exist (disk w) (argv w ! 2) \<or>
      arena_create (malloc_handle w) (malloc_block w) 8192 = None \<or>
      fopen_rb (argv w ! 1) (disk w) = None \<or>
      fopen_w filenames_txt (disk w) = None)"

text \<open>
  The run reads a container with a well-formed table, the name list is another file,
  and the C library lets the pool grow.
\<close>

definition well_formed_input :: "world \<Rightarrow> UCHAR list \<Rightarrow> UCHAR list \<Rightarrow> (UCHAR \<times> entry) list \<Rightarrow> UCHAR list \<Rightarrow> bool" where
  "well_formed_input w mg vs tab payload =
     (files (disk w) (argv w ! 1) = Some (container mg vs tab payload) \<and>
      argv w ! 1 \<noteq> filenames_txt \<and>
      length mg = 4 \<and> length vs = 4 \<and> wf_table tab \<and> (\<forall>n. grant w n))"

text \<open>The payload bytes the table declares.\<close>

definition payload_size :: "entry list \<Rightarrow> nat" where
  "payload_size es = sum_list (map (\<lambda>e. unat (fst (snd e))) es)"

text \<open>
  A run to evaluate: the tool is called as \<open>tool main.pak out\<close> on a disk that holds
  nothing but the container, no call of the system is refused, and the pool can grow.
\<close>

definition example_disk :: "UCHAR list \<Rightarrow> filesystem" where
  "example_disk bytes =
     \<lparr>dirs = {}, files = [map of_char ''main.pak'' \<mapsto> bytes], times = Map.empty,
      refuse_open = (\<lambda>p. False), refuse_dir = (\<lambda>p. False), refuse_file = (\<lambda>p. False),
      refuse_write = (\<lambda>p n. False), refuse_time = (\<lambda>p. False)\<rparr>"

definition example_world :: "UCHAR list \<Rightarrow> world" where
  "example_world bytes =
     \<lparr>argv = [map of_char ''tool'', map of_char ''main.pak'', map of_char ''out''],
      disk = example_disk bytes, garbage = example_uninit,
      malloc_handle = True, malloc_block = True, grant = (\<lambda>n. True)\<rparr>"

text \<open>
  A table that names \<open>a\<close> twice and then \<open>b\<close>, each record with one byte of payload, and
  a table with the single record \<open>a\<close>.
\<close>

definition duplicate_table :: "(UCHAR \<times> entry) list" where
  "duplicate_table =
     [(0, [0x61], 1, [1, 2, 3, 4, 5, 6, 7, 8]),
      (0, [0x61], 1, [1, 2, 3, 4, 5, 6, 7, 8]),
      (0, [0x62], 1, [1, 2, 3, 4, 5, 6, 7, 8])]"

definition single_table :: "(UCHAR \<times> entry) list" where
  "single_table = [(0, [0x61], 1, [1, 2, 3, 4, 5, 6, 7, 8])]"

section \<open>Properties of the codec\<close>

text \<open>
  C4.  The codec is \<open>decode(b) = b XOR 0xF7\<close>, and it is its own inverse: decoding a
  decoded byte gives the byte back, for every byte value.
\<close>

theorem decode_one_byte_involution:
  "decode_one_byte b = b XOR 0xF7 \<and> decode_one_byte (decode_one_byte b) = b"
  by (simp add: decode_one_byte_def xor.assoc)


section \<open>Properties of the pool\<close>

lemma room_iff:
  fixes u c sz :: size_t
  assumes "unat u + unat sz < 2 ^ 64"
  shows "(u + sz \<le> c) = (uint sz \<le> uint c - uint u)"
proof -
  have "unat (u + sz) = unat u + unat sz"
    using assms by (subst unat_add_lem[symmetric]) simp
  then have "(u + sz \<le> c) = (unat u + unat sz \<le> unat c)"
    by (simp add: word_le_nat_alt)
  also have "\<dots> = (int (unat sz) \<le> int (unat c) - int (unat u))"
    by linarith
  finally show ?thesis by simp
qed

lemma arena_scan_spec: "no_wrap bs sz \<Longrightarrow> arena_scan bs sz = spec_scan bs sz"
  by (induction bs) (simp_all add: no_wrap_def room_iff)

lemma arena_malloc_spec:
  "no_wrap (blocks a) sz \<Longrightarrow> arena_malloc mem a sz = spec_allocate mem a sz"
  by (auto simp: arena_malloc_def spec_allocate_def arena_scan_spec arena_create_new_block_def
        max_def not_less split: option.splits)

lemma arena_scan_inv:
  "arena_scan bs sz = Some (p, bs') \<Longrightarrow> list_all (\<lambda>b. used b \<le> capacity b) bs
     \<Longrightarrow> list_all (\<lambda>b. used b \<le> capacity b) bs'"
  by (induction bs arbitrary: p bs') (auto split: if_splits option.splits)

lemma arena_malloc_inv:
  "arena_malloc mem a sz = Inr (p, a') \<Longrightarrow> arena_inv a \<Longrightarrow> arena_inv a'"
  by (auto simp: arena_malloc_def arena_inv_def arena_create_new_block_def
           split: option.splits if_splits dest: arena_scan_inv)

lemma arena_create_inv: "arena_create h b bsz = Some a \<Longrightarrow> arena_inv a"
  by (auto simp: arena_create_def arena_inv_def split: if_splits)

lemma blocks_totals:
  "list_all (\<lambda>b. used b \<le> capacity b) bs
     \<Longrightarrow> (\<Sum>b\<leftarrow>bs. unat (used b)) \<le> (\<Sum>b\<leftarrow>bs. unat (capacity b))"
  by (induction bs) (auto simp: word_le_nat_alt)

lemma arena_inv_totals:
  "arena_inv a \<Longrightarrow> (\<Sum>b\<leftarrow>blocks a. unat (used b)) \<le> (\<Sum>b\<leftarrow>blocks a. unat (capacity b))"
  by (simp add: arena_inv_def blocks_totals)

lemma no_wrap_bounded:
  "arena_bounded a \<Longrightarrow> unat sz < 2 ^ 63 \<Longrightarrow> no_wrap (blocks a) sz"
  unfolding arena_bounded_def no_wrap_def list_all_iff
  by (auto simp: word_le_nat_alt)

lemma unat_add_no_wrap:
  fixes u sz :: size_t
  shows "unat u + unat sz < 2 ^ 64 \<Longrightarrow> unat (u + sz) = unat u + unat sz"
  by (subst unat_add_lem[symmetric]) simp

lemma covered_Cons:
  "covered (b # bs) s =
     (if fst (fst s) < length bs then covered bs s
      else fst (fst s) = length bs \<and> unat (snd (fst s)) + unat (snd s) \<le> unat (used b))"
proof (cases "fst (fst s) < length bs")
  case True
  then show ?thesis by (simp add: covered_def nth_append)
next
  case False
  show ?thesis
  proof (cases "fst (fst s) = length bs")
    case True
    then show ?thesis by (simp add: covered_def nth_append)
  next
    case ne: False
    with False show ?thesis by (auto simp: covered_def)
  qed
qed

lemma covered_length: "covered bs s \<Longrightarrow> fst (fst s) < length bs"
  by (simp add: covered_def)

lemma arena_scan_covered:
  assumes "arena_scan bs sz = Some (p, bs')" and "no_wrap bs sz"
  shows "length bs' = length bs \<and> covered bs' (p, sz) \<and>
         (\<forall>s. covered bs s \<longrightarrow> covered bs' s \<and> \<not> spans_overlap s (p, sz))"
  using assms
proof (induction bs arbitrary: p bs')
  case Nil
  then show ?case by simp
next
  case (Cons b bs)
  show ?case
  proof (cases "used b + sz \<le> capacity b")
    case True
    with Cons.prems have p: "p = (length bs, used b)" and bs': "bs' = b\<lparr>used := used b + sz\<rparr> # bs"
      by simp_all
    from Cons.prems(2) have nw: "unat (used b + sz) = unat (used b) + unat sz"
      by (simp add: no_wrap_def unat_add_no_wrap)
    show ?thesis
      unfolding p bs'
      by (auto simp: covered_Cons spans_overlap_def nw)
  next
    case False
    with Cons.prems obtain bs1 where r: "arena_scan bs sz = Some (p, bs1)" and bs': "bs' = b # bs1"
      by (auto split: option.splits)
    from Cons.prems(2) have "no_wrap bs sz" by (simp add: no_wrap_def)
    from Cons.IH[OF r this] have ih: "length bs1 = length bs" "covered bs1 (p, sz)"
      "\<And>s. covered bs s \<Longrightarrow> covered bs1 s \<and> \<not> spans_overlap s (p, sz)"
      by auto
    from ih(2) have lt: "fst p < length bs" by (simp add: covered_def ih(1))
    show ?thesis
      unfolding bs'
    proof (intro conjI allI impI)
      show "length (b # bs1) = length (b # bs)" by (simp add: ih(1))
      show "covered (b # bs1) (p, sz)"
        using ih(2) lt by (simp add: covered_Cons ih(1))
    next
      fix s assume c: "covered (b # bs) s"
      show "covered (b # bs1) s"
        using c ih(3)[of s] by (auto simp: covered_Cons ih(1) split: if_splits)
      show "\<not> spans_overlap s (p, sz)"
      proof (cases "fst (fst s) < length bs")
        case True
        with c have "covered bs s" by (simp add: covered_Cons)
        from ih(3)[OF this] show ?thesis by simp
      next
        case False
        with lt show ?thesis by (auto simp: spans_overlap_def)
      qed
    qed
  qed
qed

lemma arena_scan_bounded:
  "arena_scan bs sz = Some (p, bs') \<Longrightarrow>
   list_all (\<lambda>b. used b \<le> capacity b \<and> unat (capacity b) < 2 ^ 63) bs \<Longrightarrow>
   list_all (\<lambda>b. used b \<le> capacity b \<and> unat (capacity b) < 2 ^ 63) bs'"
  by (induction bs arbitrary: p bs') (auto split: if_splits option.splits)

lemma arena_malloc_covered:
  assumes "arena_malloc mem a sz = Inr (p, a')" and "arena_bounded a" and "unat sz < 2 ^ 63"
  shows "arena_bounded a' \<and> covered (blocks a') (p, sz) \<and>
         (\<forall>s. covered (blocks a) s \<longrightarrow> covered (blocks a') s \<and> \<not> spans_overlap s (p, sz))"
proof (cases "arena_scan (blocks a) sz")
  case None
  with assms(1) have g: "mem (length (blocks a))"
    and p: "p = (length (blocks a), 0)"
    and a': "a' = a\<lparr>blocks := \<lparr>used = sz, capacity = (if sz < blockSize a then blockSize a else sz)\<rparr> # blocks a,
                    blockNum := blockNum a + 1\<rparr>"
    by (auto simp: arena_malloc_def arena_create_new_block_def split: if_splits)
  have "arena_bounded a'"
    using assms(2,3) by (auto simp: a' arena_bounded_def)
  moreover have "covered (blocks a') (p, sz)"
    by (simp add: a' p covered_Cons)
  moreover have "covered (blocks a') s \<and> \<not> spans_overlap s (p, sz)" if "covered (blocks a) s" for s
    using that covered_length[OF that] by (auto simp: a' p covered_Cons spans_overlap_def)
  ultimately show ?thesis by blast
next
  case (Some r)
  with assms(1) have r: "arena_scan (blocks a) sz = Some (p, blocks a')" 
    and bs: "blockSize a' = blockSize a"
    by (auto simp: arena_malloc_def split: prod.splits)
  from no_wrap_bounded[OF assms(2,3)] arena_scan_covered[OF r]
  have "covered (blocks a') (p, sz) \<and>
         (\<forall>s. covered (blocks a) s \<longrightarrow> covered (blocks a') s \<and> \<not> spans_overlap s (p, sz))"
    by blast
  moreover have "arena_bounded a'"
    using assms(2) arena_scan_bounded[OF r] by (simp add: arena_bounded_def bs)
  ultimately show ?thesis by blast
qed

lemma spans_overlap_sym: "spans_overlap s t = spans_overlap t s"
  by (auto simp: spans_overlap_def)

lemma arena_run_disjoint:
  assumes "arena_run mem a szs = Inr (ss, a')" and "arena_bounded a"
    and "list_all (\<lambda>sz. unat sz < 2 ^ 63) szs"
  shows "arena_bounded a' \<and> list_all (covered (blocks a')) ss \<and> pairwise_disjoint ss \<and>
         (\<forall>t. covered (blocks a) t \<longrightarrow>
              covered (blocks a') t \<and> list_all (\<lambda>s. \<not> spans_overlap t s) ss)"
  using assms
proof (induction szs arbitrary: a ss)
  case Nil
  then show ?case by simp
next
  case (Cons sz szs)
  from Cons.prems(1) obtain p a1 ss1 where
    m: "arena_malloc mem a sz = Inr (p, a1)" and
    r: "arena_run mem a1 szs = Inr (ss1, a')" and ss: "ss = (p, sz) # ss1"
    by (auto split: sum.splits)
  from Cons.prems(3) have small: "unat sz < 2 ^ 63" "list_all (\<lambda>sz. unat sz < 2 ^ 63) szs"
    by simp_all
  from arena_malloc_covered[OF m Cons.prems(2) small(1)]
  have b1: "arena_bounded a1" and c1: "covered (blocks a1) (p, sz)"
    and k1: "\<And>s. covered (blocks a) s \<Longrightarrow> covered (blocks a1) s \<and> \<not> spans_overlap s (p, sz)"
    by auto
  from Cons.IH[OF r b1 small(2)]
  have b': "arena_bounded a'" and call: "list_all (covered (blocks a')) ss1"
    and pd: "pairwise_disjoint ss1"
    and k2: "\<And>t. covered (blocks a1) t \<Longrightarrow>
              covered (blocks a') t \<and> list_all (\<lambda>s. \<not> spans_overlap t s) ss1"
    by auto
  show ?case
    unfolding ss
    using b' call pd k2[OF c1] k1 k2 by auto
qed

text \<open>
  C5.  For every pool state and every requested size, \<open>allocate(size)\<close> scans the blocks
  most recent first and serves the request from the first block with
  \<open>capacity - used \<ge> size\<close>, bumping that block's \<open>used\<close> by \<open>size\<close>; if no block
  qualifies it creates a new block of capacity \<open>max(defaultBlockSize, size)\<close> with
  \<open>used = size\<close>, linked as the most recent block.

  \<open>arena_malloc\<close> does so whenever \<open>used + size\<close> stays in the range of \<open>size_t\<close>
  (\<open>arena_malloc_spec\<close> above).  Its test \<open>cursor->used + size <= cursor->capacity\<close>
  wraps, though: a request of \<open>2^64 - 2\<close> bytes on a block with 4 of 8192 bytes used is
  served from that block, with \<open>used\<close> going down to 2, where the specification creates
  a new block.
\<close>

theorem arena_malloc_wrapped_request:
  "arena_malloc (\<lambda>n. True)
     \<lparr>blocks = [\<lparr>used = 4, capacity = 8192\<rparr>], blockSize = 8192, blockNum = 1\<rparr>
     0xFFFFFFFFFFFFFFFE
   = Inr ((0, 4), \<lparr>blocks = [\<lparr>used = 2, capacity = 8192\<rparr>], blockSize = 8192, blockNum = 1\<rparr>)
   \<and>
   spec_allocate (\<lambda>n. True)
     \<lparr>blocks = [\<lparr>used = 4, capacity = 8192\<rparr>], blockSize = 8192, blockNum = 1\<rparr>
     0xFFFFFFFFFFFFFFFE
   = Inr ((1, 0),
          \<lparr>blocks = [\<lparr>used = 0xFFFFFFFFFFFFFFFE, capacity = 0xFFFFFFFFFFFFFFFE\<rparr>,
                     \<lparr>used = 4, capacity = 8192\<rparr>],
             blockSize = 8192, blockNum = 2\<rparr>)"
  by (simp add: arena_malloc_def spec_allocate_def max_def)

text \<open>
  C6.  Every pool operation (create, allocate) preserves \<open>used \<le> capacity\<close> in every
  block; consequently no two spans returned by allocate overlap, and the total of
  \<open>used\<close> never exceeds the total of \<open>capacity\<close>.

  The invariant and the totals hold for every request (\<open>arena_create_inv\<close>,
  \<open>arena_malloc_inv\<close>, \<open>arena_inv_totals\<close>), and spans do not overlap while requests stay
  below \<open>2^63\<close> (\<open>arena_run_disjoint\<close>).  A request that wraps keeps the invariant and
  breaks the consequence: on a fresh pool the requests 4, \<open>2^64 - 2\<close> and 2 return the
  spans at offsets 0, 4 and 2 of the first block, and the third lies inside the first.
\<close>

theorem arena_run_wrapped_overlap:
  "arena_create True True 8192
   = Some \<lparr>blocks = [\<lparr>used = 0, capacity = 8192\<rparr>], blockSize = 8192, blockNum = 1\<rparr>
   \<and>
   arena_run (\<lambda>n. True)
     \<lparr>blocks = [\<lparr>used = 0, capacity = 8192\<rparr>], blockSize = 8192, blockNum = 1\<rparr>
     [4, 0xFFFFFFFFFFFFFFFE, 2]
   = Inr ([((0, 0), 4), ((0, 4), 0xFFFFFFFFFFFFFFFE), ((0, 2), 2)],
          \<lparr>blocks = [\<lparr>used = 4, capacity = 8192\<rparr>], blockSize = 8192, blockNum = 1\<rparr>)
   \<and>
   spans_overlap ((0, 0), 4) ((0, 2), 2)
   \<and>
   arena_inv \<lparr>blocks = [\<lparr>used = 4, capacity = 8192\<rparr>], blockSize = 8192, blockNum = 1\<rparr>"
  by (simp add: arena_create_def arena_malloc_def spans_overlap_def arena_inv_def)

section \<open>Properties of name parsing\<close>

lemma unat_byte_less: "unat (x :: UCHAR) < 256"
  using unsigned_less[of x, where 'a=nat] by simp

lemma unat_ucast_byte: "unat (ucast (x :: UCHAR) :: UINT32) = unat x"
  using unat_byte_less[of x] by (simp add: unsigned_ucast_eq take_bit_nat_eq_self)

lemma unat_ucast_byte_Suc: "unat ((ucast (x :: UCHAR) :: UINT32) + 1) = unat x + 1"
proof -
  have "unat ((ucast x :: UINT32) + 1) = unat (ucast x :: UINT32) + unat (1 :: UINT32)"
    using unat_byte_less[of x] by (subst unat_add_lem[symmetric]) (simp add: unat_ucast_byte)
  then show ?thesis by (simp add: unat_ucast_byte)
qed

lemma name_request: "(ucast ((ucast (x :: UCHAR) :: UINT32) + 1) * 1 :: size_t) = of_nat (unat x + 1)"
proof -
  have "(ucast ((ucast x :: UINT32) + 1) :: size_t) = of_nat (unat ((ucast x :: UINT32) + 1))"
    by simp
  then show ?thesis by (simp only: unat_ucast_byte_Suc mult_1_right)
qed

lemma fread_one:
  "fread [j] 1 f =
     ([case content f of [] \<Rightarrow> j | x # xs \<Rightarrow> x], min 1 (length (content f)),
      \<lparr>content = drop 1 (content f), eof = (eof f \<or> content f = [])\<rparr>)"
  by (cases "content f") (auto simp: fread_def Let_def)

lemma pool_bytes_Suc:
  "pool_bytes u p (Suc n) = pool_bytes u p n @ [pool_byte u (ptr_add p (of_nat n))]"
  by (simp add: pool_bytes_def)

lemma length_pool_bytes [simp]: "length (pool_bytes u p n) = n"
  by (simp add: pool_bytes_def)

lemma name_buffer:
  assumes "length J = L"
  shows "decode_bytes (fst (fread ((J @ [x])[L := 0]) L f)) L =
           map decode_one_byte (take L (content f) @ drop (min L (length (content f))) J) @ [0]"
proof -
  have u: "(J @ [x])[L := 0] = J @ [0]"
    using assms by (simp add: list_update_append)
  let ?got = "take L (content f)"
  have len: "length ?got \<le> L" by simp
  have b: "fst (fread (J @ [0]) L f) = (?got @ drop (length ?got) J) @ [0]"
    using assms by (simp add: fread_def Let_def)
  have "length (?got @ drop (length ?got) J) = L"
    using assms by simp
  then show ?thesis
    unfolding u b decode_bytes_def by (simp add: min.commute)
qed

lemma fread_stream:
  "snd (snd (fread b n f)) = \<lparr>content = drop n (content f), eof = (eof f \<or> length (content f) < n)\<rparr>"
  by (simp add: fread_def Let_def)

lemma parse_file_name_eq:
  "parse_file_name u mem res m attr =
     (let L = unat (decode_one_byte (length_byte u (pakFile res)));
          rest = drop 1 (content (pakFile res));
          e1 = (eof (pakFile res) \<or> content (pakFile res) = [])
      in case arena_malloc mem (arena res) (of_nat (L + 1)) of
           Inl e \<Rightarrow> Inl e
         | Inr (p, a') \<Rightarrow>
             Inr (res\<lparr>arena := a', pakFile := \<lparr>content = drop L rest, eof = (e1 \<or> length rest < L)\<rparr>\<rparr>,
                  m\<lparr>str_at := (str_at m)(p \<mapsto>
                       map decode_one_byte (take L rest @ drop (min L (length rest)) (pool_bytes u p L)) @ [0])\<rparr>,
                  attr\<lparr>fileName := p\<rparr>))"
proof -
  define b where "b = length_byte u (pakFile res)"
  define L where "L = unat (decode_one_byte b)"
  define req :: size_t where "req = of_nat (L + 1)"
  define f1 where "f1 = \<lparr>content = drop 1 (content (pakFile res)),
                         eof = (eof (pakFile res) \<or> content (pakFile res) = [])\<rparr>"
  have r1: "ucast ((ucast (decode_one_byte b) :: UINT32) + 1) * 1 = req"
    unfolding req_def L_def by (rule name_request)
  have r2: "unat (ucast (decode_one_byte b) :: UINT32) = L"
    unfolding L_def by (rule unat_ucast_byte)
  have r3: "unat ((ucast (decode_one_byte b) :: UINT32) + 1) = Suc L"
    unfolding L_def by (simp only: unat_ucast_byte_Suc Suc_eq_plus1)
  have step: "parse_file_name u mem res m attr =
      (case arena_malloc mem (arena res) req of
         Inl e \<Rightarrow> Inl e
       | Inr (p, arena') \<Rightarrow>
           (case fread ((pool_bytes u p (Suc L))[L := 0]) L f1 of
              (buf2, n2, f2) \<Rightarrow>
                Inr (res\<lparr>arena := arena', pakFile := f2\<rparr>,
                     m\<lparr>str_at := (str_at m)(p \<mapsto> decode_bytes buf2 L)\<rparr>,
                     attr\<lparr>fileName := p\<rparr>)))"
    unfolding parse_file_name_def fread_one Let_def prod.case nth_Cons_0
      length_byte_def[symmetric] b_def[symmetric] r1 r2 r3 f1_def[symmetric] ..
  have nb: "decode_bytes (fst (fread ((pool_bytes u p (Suc L))[L := 0]) L f1)) L =
           map decode_one_byte (take L (content f1) @ drop (min L (length (content f1))) (pool_bytes u p L)) @ [0]"
    for p
    unfolding pool_bytes_Suc by (rule name_buffer) simp
  show ?thesis
    unfolding step Let_def b_def[symmetric] L_def[symmetric] req_def[symmetric]
    by (simp add: case_prod_beta nb fread_stream split: sum.splits) (simp add: f1_def)
qed

text \<open>
  C9.  For every decoded name length \<open>L\<close>, \<open>L = 0\<close> included, parsing a record's name
  asks the pool for exactly \<open>L + 1\<close> bytes, writes the terminator at index \<open>L\<close> and
  fills only the indices below \<open>L\<close> with decoded bytes, so the stored name is
  null-terminated inside its own allocation.  When the pool aborts nothing is stored.
  Where the stream ends early, the indices that \<open>fread\<close> did not reach hold the
  decoding of what the pool's memory held.
\<close>

theorem parse_file_name_null_terminated:
  "let L = unat (decode_one_byte (length_byte u (pakFile res)));
       rest = drop 1 (content (pakFile res))
   in case arena_malloc mem (arena res) (of_nat (L + 1)) of
        Inl e \<Rightarrow> parse_file_name u mem res m attr = Inl e
      | Inr (p, a') \<Rightarrow>
          (\<exists>res' buf.
             parse_file_name u mem res m attr
               = Inr (res', m\<lparr>str_at := (str_at m)(p \<mapsto> buf)\<rparr>, attr\<lparr>fileName := p\<rparr>)
             \<and> arena res' = a' \<and> length buf = L + 1 \<and> buf ! L = 0
             \<and> take L buf = map decode_one_byte
                               (take L rest @ drop (min L (length rest)) (pool_bytes u p L)))"
proof -
  define L where "L = unat (decode_one_byte (length_byte u (pakFile res)))"
  define rest where "rest = drop 1 (content (pakFile res))"
  define name_buf where
    "name_buf p = map decode_one_byte (take L rest @ drop (min L (length rest)) (pool_bytes u p L))"
    for p
  have len: "length (name_buf p) = L" for p
    by (simp add: name_buf_def)
  have eq: "parse_file_name u mem res m attr =
      (case arena_malloc mem (arena res) (of_nat (L + 1)) of
         Inl e \<Rightarrow> Inl e
       | Inr (p, a') \<Rightarrow>
           Inr (res\<lparr>arena := a',
                    pakFile := \<lparr>content = drop L rest,
                                eof = ((eof (pakFile res) \<or> content (pakFile res) = [])
                                       \<or> length rest < L)\<rparr>\<rparr>,
                m\<lparr>str_at := (str_at m)(p \<mapsto> name_buf p @ [0])\<rparr>,
                attr\<lparr>fileName := p\<rparr>))"
    unfolding parse_file_name_eq Let_def L_def rest_def name_buf_def map_append ..
  show ?thesis
    unfolding Let_def L_def[symmetric] rest_def[symmetric]
  proof (cases "arena_malloc mem (arena res) (of_nat (L + 1))")
    case (Inl e)
    then show "case arena_malloc mem (arena res) (of_nat (L + 1)) of
        Inl e \<Rightarrow> parse_file_name u mem res m attr = Inl e
      | Inr (p, a') \<Rightarrow>
          (\<exists>res' buf.
             parse_file_name u mem res m attr
               = Inr (res', m\<lparr>str_at := (str_at m)(p \<mapsto> buf)\<rparr>, attr\<lparr>fileName := p\<rparr>)
             \<and> arena res' = a' \<and> length buf = L + 1 \<and> buf ! L = 0
             \<and> take L buf = map decode_one_byte
                               (take L rest @ drop (min L (length rest)) (pool_bytes u p L)))"
      by (simp add: eq)
  next
    case (Inr r)
    obtain p a' where r: "r = (p, a')" by (cases r)
    define res' where
      "res' = res\<lparr>arena := a',
                   pakFile := \<lparr>content = drop L rest,
                               eof = ((eof (pakFile res) \<or> content (pakFile res) = [])
                                      \<or> length rest < L)\<rparr>\<rparr>"
    have p1: "parse_file_name u mem res m attr
               = Inr (res', m\<lparr>str_at := (str_at m)(p \<mapsto> name_buf p @ [0])\<rparr>, attr\<lparr>fileName := p\<rparr>)"
      unfolding eq Inr r res'_def by simp
    have p2: "arena res' = a'"
      by (simp add: res'_def)
    have p3: "length (name_buf p @ [0]) = L + 1" "(name_buf p @ [0]) ! L = 0"
      "take L (name_buf p @ [0]) = name_buf p"
      by (simp_all add: len nth_append)
    from p1 p2 p3 have
      "\<exists>res' buf.
             parse_file_name u mem res m attr
               = Inr (res', m\<lparr>str_at := (str_at m)(p \<mapsto> buf)\<rparr>, attr\<lparr>fileName := p\<rparr>)
             \<and> arena res' = a' \<and> length buf = L + 1 \<and> buf ! L = 0
             \<and> take L buf = name_buf p"
      by blast
    then show "case arena_malloc mem (arena res) (of_nat (L + 1)) of
        Inl e \<Rightarrow> parse_file_name u mem res m attr = Inl e
      | Inr (p, a') \<Rightarrow>
          (\<exists>res' buf.
             parse_file_name u mem res m attr
               = Inr (res', m\<lparr>str_at := (str_at m)(p \<mapsto> buf)\<rparr>, attr\<lparr>fileName := p\<rparr>)
             \<and> arena res' = a' \<and> length buf = L + 1 \<and> buf ! L = 0
             \<and> take L buf = map decode_one_byte
                               (take L rest @ drop (min L (length rest)) (pool_bytes u p L)))"
      unfolding Inr r sum.case prod.case name_buf_def[symmetric] .
  qed
qed

section \<open>Properties of path composition\<close>

lemma copy_chars_eq:
  "i \<le> length buf \<Longrightarrow> copy_chars buf i cs =
     (if i + length cs \<le> length buf
      then Some (take i buf @ cs @ drop (i + length cs) buf, i + length cs) else None)"
proof (induction cs arbitrary: buf i)
  case Nil
  then show ?case by simp
next
  case (Cons c cs)
  show ?case
  proof (cases "i < length buf")
    case True
    then have "take (Suc i) (buf[i := c]) = take i buf @ [c]"
      by (simp add: take_Suc_conv_app_nth)
    with True show ?thesis by (simp add: Cons.IH)
  next
    case False
    then show ?thesis by simp
  qed
qed

lemma put_char_eq:
  "put_char buf i c =
     (if i < length buf then Some (take i buf @ c # drop (Suc i) buf, Suc i) else None)"
  by (simp add: put_char_def upd_conv_take_nth_drop)

lemma build_complete_path_eq:
  assumes "extractPath \<noteq> []"
  shows "build_complete_path buf len extractPath name =
           (if length (joined extractPath name) < length buf
            then Inr (joined extractPath name @ 0 # drop (Suc (length (joined extractPath name))) buf)
            else Inl Undefined)"
  using assms
  by (auto simp: build_complete_path_def copy_chars_eq put_char_eq joined_def add.commute)

lemma c_str_terminated: "0 \<notin> set s \<Longrightarrow> c_str (s @ 0 # t) = s"
  by (auto simp: c_str_def takeWhile_tail)

text \<open>
  Where the composed path and its terminator fit the buffer, the string left in the
  buffer is the root, the separator if the root lacks one, and the name.
\<close>

lemma build_complete_path_fits:
  assumes "extractPath \<noteq> []" and "0 \<notin> set extractPath" and "0 \<notin> set name"
    and "length (joined extractPath name) < length buf"
  shows "\<exists>pathbuf. build_complete_path buf len extractPath name = Inr pathbuf \<and>
           c_str pathbuf = joined extractPath name"
proof -
  from assms(2,3) have "0 \<notin> set (joined extractPath name)"
    by (auto simp: joined_def)
  then show ?thesis
    using assms(1,4) by (simp add: build_complete_path_eq c_str_terminated)
qed

text \<open>
  C10.  For every non-empty extraction root and every record name, the composed
  destination path is the root, a single backslash when the root does not end in one,
  and the name; no other characters are added or removed.

  \<open>build_complete_path\<close> composes exactly that (\<open>build_complete_path_fits\<close>) as long as
  the result fits the array it writes to.  It never looks at its parameter \<open>len\<close>, and
  the array is \<open>char path[MAX_PATH]\<close>: with the root \<open>out2\<close> and a name of 255
  characters, which the container format allows, the path needs 261 bytes and the
  terminator is written past the end of the array.
\<close>

theorem build_complete_path_overrun:
  "build_complete_path (map f [0..<MAX_PATH]) MAX_PATH (map of_char ''out2'') (replicate 255 0x61)
     = Inl Undefined
   \<and> length (joined (map of_char ''out2'') (replicate 255 0x61)) + 1 = 261
   \<and> MAX_PATH = 260"
  by (simp add: build_complete_path_eq joined_def MAX_PATH_def)

section \<open>Properties of the container parser\<close>

lemma bytes_of_u32_list:
  "bytes_of_u32 w = [ucast w, ucast (drop_bit 8 w), ucast (drop_bit 16 w), ucast (drop_bit 24 w)]"
  by (simp add: bytes_of_u32_def upt_rec)

lemma length_bytes_of_u32 [simp]: "length (bytes_of_u32 w) = 4"
  by (simp add: bytes_of_u32_def)

lemma le32_bytes_of_u32: "le32 (bytes_of_u32 w) = w"
  unfolding bytes_of_u32_list le32_def
  apply simp
  apply (rule bit_word_eqI)
  apply (auto simp: bit_simps)
  subgoal for n by (cases "n < 24") simp_all
  done

lemma decode_decode [simp]: "decode_one_byte (decode_one_byte b) = b"
  by (simp add: decode_one_byte_def xor.assoc)

lemma decode_comp [simp]: "decode_one_byte \<circ> decode_one_byte = id"
  by (rule ext) simp

lemma map_decode_decode: "map decode_one_byte (map decode_one_byte bs) = bs"
  by simp

lemma reach_pak_header_end_eq:
  "reach_pak_header_end u res =
     (decode_one_byte (case content (pakFile res) of [] \<Rightarrow> local_flag u | x # xs \<Rightarrow> x) = 0x80,
      res\<lparr>pakFile := \<lparr>content = drop 1 (content (pakFile res)),
                        eof = (eof (pakFile res) \<or> content (pakFile res) = [])\<rparr>\<rparr>)"
  unfolding reach_pak_header_end_def fread_one by simp

lemma fread_full:
  "n \<le> length (content f) \<Longrightarrow>
   fread buf n f = (take n (content f) @ drop n buf, n, \<lparr>content = drop n (content f), eof = eof f\<rparr>)"
  by (simp add: fread_def Let_def min_def)

lemma parse_file_size_eq:
  assumes "content (pakFile res) = map decode_one_byte (bytes_of_u32 sz) @ rest"
  shows "parse_file_size res attr =
           (res\<lparr>pakFile := \<lparr>content = rest, eof = eof (pakFile res)\<rparr>\<rparr>, attr\<lparr>fileSize := sz\<rparr>)"
proof -
  have "fread (bytes_of_u32 (fileSize attr)) 4 (pakFile res) =
          (map decode_one_byte (bytes_of_u32 sz), 4, \<lparr>content = rest, eof = eof (pakFile res)\<rparr>)"
    by (subst fread_full) (simp_all add: assms)
  then show ?thesis
    by (simp add: parse_file_size_def decode_bytes_def le32_bytes_of_u32)
qed

lemma parse_file_last_write_time_eq:
  assumes "content (pakFile res) = map decode_one_byte tm @ rest" and "length tm = 8"
    and "length (lastWriteTime attr) = 8"
  shows "parse_file_last_write_time res attr =
           (res\<lparr>pakFile := \<lparr>content = rest, eof = eof (pakFile res)\<rparr>\<rparr>, attr\<lparr>lastWriteTime := tm\<rparr>)"
proof -
  have "fread (lastWriteTime attr) 8 (pakFile res) =
          (map decode_one_byte tm, 8, \<lparr>content = rest, eof = eof (pakFile res)\<rparr>)"
    by (subst fread_full) (simp_all add: assms)
  then show ?thesis
    by (simp add: parse_file_last_write_time_def decode_bytes_def assms(2))
qed

lemma unat_of_nat_byte: "n \<le> 255 \<Longrightarrow> unat (of_nat n :: UCHAR) = n"
  by (simp add: unat_of_nat)

lemma parse_file_name_record:
  assumes c: "content (pakFile res) = decode_one_byte (of_nat (length nm)) # map decode_one_byte nm @ rest"
    and ln: "length nm \<le> 255"
    and m2: "arena_malloc mem (arena res) (of_nat (length nm + 1)) = Inr (q, a2)"
  shows "parse_file_name u mem res m attr =
           Inr (res\<lparr>arena := a2, pakFile := \<lparr>content = rest, eof = eof (pakFile res)\<rparr>\<rparr>,
                m\<lparr>str_at := (str_at m)(q \<mapsto> nm @ [0])\<rparr>, attr\<lparr>fileName := q\<rparr>)"
proof -
  have L: "unat (decode_one_byte (length_byte u (pakFile res))) = length nm"
    by (simp add: length_byte_def c unat_of_nat_byte ln)
  show ?thesis
    unfolding parse_file_name_eq Let_def L
    using m2 by (simp add: c)
qed

lemma length_fresh_time [simp]: "length (lastWriteTime (fresh_attr u p)) = 8"
  by (simp add: fresh_attr_def)

lemma parse_one_file_attr_end:
  assumes "content (pakFile res) = decode_one_byte 0x80 # rest"
  shows "parse_one_file_attr u mem (res, header, m) =
           Inr (True, res\<lparr>pakFile := \<lparr>content = rest, eof = eof (pakFile res)\<rparr>\<rparr>, header, m)"
  by (simp add: parse_one_file_attr_def reach_pak_header_end_eq assms)

lemma parse_one_file_attr_record:
  assumes c: "content (pakFile res) = map decode_one_byte (plain_record flag (nm, sz, tm)) @ rest"
    and fl: "flag \<noteq> 0x80" and ln: "length nm \<le> 255" and lt: "length tm = 8"
    and m1: "arena_malloc mem (arena res) sizeof_FileAttr = Inr (p, a1)"
    and m2: "arena_malloc mem a1 (of_nat (length nm + 1)) = Inr (q, a2)"
  shows "parse_one_file_attr u mem (res, header, m) =
     (case file_attr_list_add (flist header) p
             ((attr_at m)(p \<mapsto> \<lparr>fileName = q, fileSize = sz, lastWriteTime = tm, next = None\<rparr>)) of
        None \<Rightarrow> Inl Undefined
      | Some (fl', h') \<Rightarrow>
          Inr (False, res\<lparr>arena := a2, pakFile := \<lparr>content = rest, eof = eof (pakFile res)\<rparr>\<rparr>,
               header\<lparr>flist := fl'\<rparr>,
               m\<lparr>str_at := (str_at m)(q \<mapsto> nm @ [0]), attr_at := h'\<rparr>))"
proof -
  define e where "e = eof (pakFile res)"
  define res1 where
    "res1 = res\<lparr>pakFile := \<lparr>content = decode_one_byte (of_nat (length nm)) # map decode_one_byte nm
                                  @ map decode_one_byte (bytes_of_u32 sz) @ map decode_one_byte tm @ rest,
                                eof = e\<rparr>\<rparr>"
  define res2 where
    "res2 = res\<lparr>arena := a2,
                pakFile := \<lparr>content = map decode_one_byte (bytes_of_u32 sz) @ map decode_one_byte tm @ rest,
                            eof = e\<rparr>\<rparr>"
  define res3 where
    "res3 = res\<lparr>arena := a2, pakFile := \<lparr>content = map decode_one_byte tm @ rest, eof = e\<rparr>\<rparr>"
  define res4 where
    "res4 = res\<lparr>arena := a2, pakFile := \<lparr>content = rest, eof = e\<rparr>\<rparr>"
  define attr2 where "attr2 = (fresh_attr u p)\<lparr>fileName := q\<rparr>"
  have r: "reach_pak_header_end u res = (False, res1)"
    using fl by (simp add: reach_pak_header_end_eq c plain_record_def res1_def e_def)
  have n: "parse_file_name u mem (res1\<lparr>arena := a1\<rparr>) m (fresh_attr u p)
             = Inr (res2, m\<lparr>str_at := (str_at m)(q \<mapsto> nm @ [0])\<rparr>, attr2)"
    using parse_file_name_record[where res = "res1\<lparr>arena := a1\<rparr>" and nm = nm
        and rest = "map decode_one_byte (bytes_of_u32 sz) @ map decode_one_byte tm @ rest"
        and mem = mem and q = q and ?a2.0 = a2 and u = u and m = m and attr = "fresh_attr u p"]
      ln m2
    by (simp add: res1_def res2_def attr2_def)
  have s: "parse_file_size res2 attr2 = (res3, attr2\<lparr>fileSize := sz\<rparr>)"
    by (subst parse_file_size_eq[where sz = sz and rest = "map decode_one_byte tm @ rest"])
       (simp_all add: res2_def res3_def)
  have t: "parse_file_last_write_time res3 (attr2\<lparr>fileSize := sz\<rparr>)
             = (res4, attr2\<lparr>fileSize := sz, lastWriteTime := tm\<rparr>)"
    by (subst parse_file_last_write_time_eq[where tm = tm and rest = rest])
       (simp_all add: res3_def res4_def lt attr2_def)
  have a: "attr2\<lparr>fileSize := sz, lastWriteTime := tm\<rparr>
             = \<lparr>fileName = q, fileSize = sz, lastWriteTime = tm, next = None\<rparr>"
    by (simp add: attr2_def fresh_attr_def)
  have m1': "arena_malloc mem (arena res1) sizeof_FileAttr = Inr (p, a1)"
    using m1 by (simp add: res1_def)
  show ?thesis
    unfolding parse_one_file_attr_def prod.case r bool.case m1' sum.case
    by (simp add: n s t a res4_def e_def split: option.splits)
qed

lemma set_next_same: "h p = Some a \<Longrightarrow> set_next h p v p = Some (a\<lparr>next := v\<rparr>)"
  by (simp add: set_next_def)

lemma set_next_other: "q \<noteq> p \<Longrightarrow> set_next h p v q = h q"
  by (simp add: set_next_def split: option.splits)

lemma set_next_fields: "same_fields (set_next h p v q) (h q)"
  by (simp add: set_next_def same_fields_def split: option.splits)

lemma chain_frame: "(\<And>p. p \<in> set ps \<Longrightarrow> h' p = h p) \<Longrightarrow> chain h' c ps = chain h c ps"
  by (induction ps arbitrary: c) (auto split: option.splits)

lemma chain_snoc:
  assumes "chain h c ps" and "ps \<noteq> []" and "distinct (ps @ [p])" and "h p = Some a"
  shows "chain (set_next (set_next h p None) (last ps) (Some p)) c (ps @ [p])"
  using assms
proof (induction ps arbitrary: c)
  case Nil
  then show ?case by simp
next
  case (Cons x ps)
  let ?h1 = "set_next h p None"
  let ?h2 = "\<lambda>t. set_next ?h1 t (Some p)"
  from Cons.prems obtain ax where c: "c = Some x" and hx: "h x = Some ax"
    and rest: "chain h (next ax) ps"
    by (auto split: option.splits)
  from Cons.prems(3) have xp: "x \<noteq> p" and xps: "x \<notin> set ps" and d: "distinct (ps @ [p])"
    by auto
  have h1x: "?h1 x = Some ax" using xp hx by (simp add: set_next_other)
  have h1p: "?h1 p = Some (a\<lparr>next := None\<rparr>)" using Cons.prems(4) by (simp add: set_next_same)
  show ?case
  proof (cases "ps = []")
    case True
    with rest have nx: "next ax = None" by simp
    have "?h2 x x = Some (ax\<lparr>next := Some p\<rparr>)" using h1x by (simp add: set_next_same)
    moreover have "?h2 x p = Some (a\<lparr>next := None\<rparr>)" using h1p xp by (simp add: set_next_other)
    ultimately show ?thesis using True c by simp
  next
    case False
    then have lx: "last (x # ps) = last ps" by simp
    from False xps have "x \<noteq> last ps" by (metis last_in_set)
    then have "?h2 (last ps) x = Some ax" using h1x by (simp add: set_next_other)
    moreover from Cons.IH[OF rest False d Cons.prems(4)]
    have "chain (?h2 (last ps)) (next ax) (ps @ [p])" .
    ultimately show ?thesis unfolding lx using c by simp
  qed
qed

lemma file_attr_list_add_inv:
  assumes inv: "list_inv fl h ps" and hp: "h p = Some a" and new: "p \<notin> set ps"
  shows "\<exists>fl' h'. file_attr_list_add fl p h = Some (fl', h') \<and> list_inv fl' h' (ps @ [p]) \<and>
           (\<forall>q. same_fields (h' q) (h q))"
proof (cases "ps = []")
  case True
  with inv have hd: "head fl = None" and len: "length_l fl = 0"
    by (simp_all add: list_inv_def)
  have "file_attr_list_add fl p h =
          Some (\<lparr>head = Some p, tail = Some p, length_l = 1\<rparr>, set_next h p None)"
    by (simp add: file_attr_list_add_def hd len)
  moreover have "list_inv \<lparr>head = Some p, tail = Some p, length_l = 1\<rparr> (set_next h p None) ([] @ [p])"
    using hp by (simp add: list_inv_def set_next_same)
  ultimately show ?thesis
    using True set_next_fields by auto
next
  case False
  with inv have ch: "chain h (head fl) ps" and d: "distinct ps"
    and tl: "tail fl = Some (last ps)" and len: "length_l fl = of_nat (length ps)"
    by (simp_all add: list_inv_def)
  from ch False have hd: "head fl \<noteq> None" by (cases ps) auto
  let ?h' = "set_next (set_next h p None) (last ps) (Some p)"
  let ?fl' = "\<lparr>head = head fl, tail = Some p, length_l = length_l fl + 1\<rparr>"
  have "file_attr_list_add fl p h = Some (?fl', ?h')"
    using hd by (simp add: file_attr_list_add_def tl Let_def)
  moreover have "chain ?h' (head fl) (ps @ [p])"
    using chain_snoc[OF ch False _ hp] d new by simp
  then have "list_inv ?fl' ?h' (ps @ [p])"
    using d new by (simp add: list_inv_def len)
  moreover have "same_fields (?h' q) (h q)" for q
    using set_next_fields[of "set_next h p None" "last ps" "Some p" q]
      set_next_fields[of h p None q]
    by (simp add: same_fields_def)
  ultimately show ?thesis by blast
qed

lemma same_fieldsD:
  "same_fields x (Some a) \<Longrightarrow>
   \<exists>a'. x = Some a' \<and> fileName a' = fileName a \<and> fileSize a' = fileSize a \<and>
        lastWriteTime a' = lastWriteTime a"
  by (cases x) (auto simp: same_fields_def)

lemma overlap_same_start: "n \<noteq> 0 \<Longrightarrow> n' \<noteq> 0 \<Longrightarrow> spans_overlap (p, n) (p, n')"
  by (simp add: spans_overlap_def unat_gt_0)

lemma arena_malloc_grants:
  "\<forall>n. mem n \<Longrightarrow> \<exists>p a'. arena_malloc mem a sz = Inr (p, a')"
  by (auto simp: arena_malloc_def arena_create_new_block_def split: option.splits)

lemma unat_name_request: "n \<le> 255 \<Longrightarrow> unat (of_nat (n + 1) :: size_t) = n + 1"
  using unat_of_nat[of "n + 1", where 'a=64] by simp

lemma parse_one_file_attr_inv:
  assumes inv: "parse_inv res header m ps es"
    and c: "content (pakFile res) = map decode_one_byte (plain_record flag (nm, sz, tm)) @ rest"
    and fl: "flag \<noteq> 0x80" and ln: "length nm \<le> 255" and lt: "length tm = 8"
    and grant: "\<forall>n. mem n"
  shows "\<exists>res' header' m' p.
           parse_one_file_attr u mem (res, header, m) = Inr (False, res', header', m') \<and>
           parse_inv res' header' m' (ps @ [p]) (es @ [(nm, sz, tm)]) \<and>
           pakFile res' = \<lparr>content = rest, eof = eof (pakFile res)\<rparr> \<and>
           filenameListSav res' = filenameListSav res \<and>
           magic header' = magic header \<and> version header' = version header"
proof -
  let ?n1 = "of_nat (length nm + 1) :: size_t"
  from inv have li: "list_inv (flist header) (attr_at m) ps"
    and la: "list_all2 (\<lambda>p e. holds m p e \<and> owned (blocks (arena res)) m p e) ps es"
    and ab: "arena_bounded (arena res)" and le: "list_all (\<lambda>e. length (fst e) \<le> 255) es"
    by (simp_all add: parse_inv_def)
  from arena_malloc_grants[OF grant] obtain p a1 where
    m1: "arena_malloc mem (arena res) sizeof_FileAttr = Inr (p, a1)" by blast
  from arena_malloc_grants[OF grant] obtain q a2 where
    m2: "arena_malloc mem a1 ?n1 = Inr (q, a2)" by blast
  have s1: "unat sizeof_FileAttr < 2 ^ 63" "sizeof_FileAttr \<noteq> 0"
    by (simp_all add: sizeof_FileAttr_def)
  have un: "unat ?n1 = length nm + 1" by (rule unat_name_request[OF ln])
  then have s2: "unat ?n1 < 2 ^ 63" using ln by simp
  from un have nz: "?n1 \<noteq> 0" by (metis Suc_eq_plus1 nat.distinct(1) unat_0)
  from arena_malloc_covered[OF m1 ab s1(1)] have
    b1: "arena_bounded a1" and c1: "covered (blocks a1) (p, sizeof_FileAttr)"
    and k1: "\<And>s. covered (blocks (arena res)) s \<Longrightarrow> covered (blocks a1) s \<and> \<not> spans_overlap s (p, sizeof_FileAttr)"
    by auto
  from arena_malloc_covered[OF m2 b1 s2] have
    b2: "arena_bounded a2" and c2: "covered (blocks a2) (q, ?n1)"
    and k2: "\<And>s. covered (blocks a1) s \<Longrightarrow> covered (blocks a2) s \<and> \<not> spans_overlap s (q, ?n1)"
    by auto
  have old: "p' \<noteq> p \<and> (\<exists>a. attr_at m p' = Some a \<and> fileName a \<noteq> q) \<and> owned (blocks a2) m p' e"
    if h: "holds m p' e" and ow: "owned (blocks (arena res)) m p' e" and el: "length (fst e) \<le> 255" for p' e
  proof -
    from ow obtain a where a: "attr_at m p' = Some a"
      and cp: "covered (blocks (arena res)) (p', sizeof_FileAttr)"
      and cn: "covered (blocks (arena res)) (fileName a, of_nat (length (fst e) + 1))"
      by (auto simp: owned_def split: option.splits)
    have "p' \<noteq> p"
      using k1[OF cp] overlap_same_start[OF s1(2) s1(2), of p] by auto
    moreover have nz': "(of_nat (length (fst e) + 1) :: size_t) \<noteq> 0"
      using unat_name_request[OF el] by (metis Suc_eq_plus1 nat.distinct(1) unat_0)
    have "fileName a \<noteq> q"
      using k2[of "(fileName a, of_nat (length (fst e) + 1))"] k1[OF cn]
        overlap_same_start[OF nz' nz, of q] by auto
    moreover have "owned (blocks a2) m p' e"
      using k1[OF cp] k1[OF cn] k2 a by (auto simp: owned_def)
    ultimately show ?thesis using a by blast
  qed
  have pnew: "p \<notin> set ps"
  proof
    assume "p \<in> set ps"
    then obtain i where i: "i < length ps" "ps ! i = p" by (auto simp: in_set_conv_nth)
    with la have "holds m p (es ! i)" "owned (blocks (arena res)) m p (es ! i)"
      "length (fst (es ! i)) \<le> 255"
      using le by (auto simp: list_all2_conv_all_nth list_all_length)
    from old[OF this] show False by simp
  qed
  let ?node = "\<lparr>fileName = q, fileSize = sz, lastWriteTime = tm, next = None\<rparr>"
  let ?h = "(attr_at m)(p \<mapsto> ?node)"
  have "chain ?h (head (flist header)) ps = chain (attr_at m) (head (flist header)) ps"
    by (rule chain_frame) (use pnew in auto)
  with li have "list_inv (flist header) ?h ps"
    by (simp add: list_inv_def)
  from file_attr_list_add_inv[OF this _ pnew, of ?node] obtain fl' h' where
    add: "file_attr_list_add (flist header) p ?h = Some (fl', h')"
    and li': "list_inv fl' h' (ps @ [p])"
    and sf: "\<And>x. same_fields (h' x) (?h x)"
    by auto
  let ?res' = "res\<lparr>arena := a2, pakFile := \<lparr>content = rest, eof = eof (pakFile res)\<rparr>\<rparr>"
  let ?m' = "m\<lparr>str_at := (str_at m)(q \<mapsto> nm @ [0]), attr_at := h'\<rparr>"
  have run: "parse_one_file_attr u mem (res, header, m) = Inr (False, ?res', header\<lparr>flist := fl'\<rparr>, ?m')"
    by (simp add: parse_one_file_attr_record[OF c fl ln lt m1 m2] add)
  have keep: "holds ?m' p' e \<and> owned (blocks a2) ?m' p' e"
    if h: "holds m p' e" and ow: "owned (blocks (arena res)) m p' e" and el: "length (fst e) \<le> 255" for p' e
  proof -
    from old[OF that] obtain a where pp: "p' \<noteq> p" and a: "attr_at m p' = Some a"
      and fq: "fileName a \<noteq> q" and ow2: "owned (blocks a2) m p' e" by blast
    from sf[of p'] pp a have "same_fields (h' p') (Some a)" by simp
    from same_fieldsD[OF this] obtain a' where a': "h' p' = Some a'" "fileName a' = fileName a"
      "fileSize a' = fileSize a" "lastWriteTime a' = lastWriteTime a" by blast
    show ?thesis
      using h ow2 a a' fq by (simp add: holds_def owned_def)
  qed
  have new: "holds ?m' p (nm, sz, tm) \<and> owned (blocks a2) ?m' p (nm, sz, tm)"
  proof -
    from sf[of p] have "same_fields (h' p) (Some ?node)" by simp
    from same_fieldsD[OF this] obtain a' where a': "h' p = Some a'" "fileName a' = q"
      "fileSize a' = sz" "lastWriteTime a' = tm" by auto
    show ?thesis
      using a' c2 k2[OF c1] by (simp add: holds_def owned_def)
  qed
  have "list_all2 (\<lambda>p e. holds ?m' p e \<and> owned (blocks a2) ?m' p e) ps es"
    using la le keep by (auto simp: list_all2_conv_all_nth list_all_length)
  with new have "list_all2 (\<lambda>p e. holds ?m' p e \<and> owned (blocks a2) ?m' p e) (ps @ [p]) (es @ [(nm, sz, tm)])"
    by (simp add: list_all2_appendI)
  then have "parse_inv ?res' (header\<lparr>flist := fl'\<rparr>) ?m' (ps @ [p]) (es @ [(nm, sz, tm)])"
    using li' b2 le ln by (simp add: parse_inv_def)
  with run show ?thesis by (intro exI[of _ ?res'] exI[of _ "header\<lparr>flist := fl'\<rparr>"] exI[of _ ?m'] exI[of _ p]) simp
qed

lemma parse_inv_stream [simp]:
  "parse_inv (res\<lparr>pakFile := f\<rparr>) header m ps es = parse_inv res header m ps es"
  by (simp add: parse_inv_def)

lemma parse_all_file_attrs_table:
  assumes "content (pakFile res) = map decode_one_byte (table_bytes tab @ [0x80]) @ payload"
    and "\<not> eof (pakFile res)" and "wf_table tab" and "parse_inv res header m ps es"
    and "\<forall>n. mem n"
  shows "\<exists>res' header' m' ps'.
           parse_all_file_attrs u mem (res, header, m) = Inr (res', header', m') \<and>
           parse_inv res' header' m' (ps @ ps') (es @ map snd tab) \<and>
           pakFile res' = \<lparr>content = payload, eof = False\<rparr> \<and>
           filenameListSav res' = filenameListSav res \<and>
           magic header' = magic header \<and> version header' = version header"
  using assms
proof (induction tab arbitrary: res header m ps es)
  case Nil
  then have c: "content (pakFile res) = decode_one_byte 0x80 # payload"
    by (simp add: table_bytes_def)
  have "parse_all_file_attrs u mem (res, header, m) =
          Inr (res\<lparr>pakFile := \<lparr>content = payload, eof = eof (pakFile res)\<rparr>\<rparr>, header, m)"
    by (subst parse_all_file_attrs.simps) (simp add: Nil.prems(2) parse_one_file_attr_end[OF c])
  with Nil.prems(2,4) show ?case
    by (intro exI[of _ "res\<lparr>pakFile := \<lparr>content = payload, eof = eof (pakFile res)\<rparr>\<rparr>"]
          exI[of _ header] exI[of _ m] exI[of _ "[]"]) simp
next
  case (Cons r tab)
  obtain flag nm sz tm where r: "r = (flag, nm, sz, tm)" by (cases r) auto
  from Cons.prems(3) have wf: "flag \<noteq> 0x80" "length nm \<le> 255" "length tm = 8" "wf_table tab"
    by (simp_all add: wf_table_def r)
  let ?rest = "map decode_one_byte (table_bytes tab @ [0x80]) @ payload"
  have c: "content (pakFile res) = map decode_one_byte (plain_record flag (nm, sz, tm)) @ ?rest"
    using Cons.prems(1) by (simp add: table_bytes_def r)
  from parse_one_file_attr_inv[OF Cons.prems(4) c wf(1,2,3) Cons.prems(5), of u]
  obtain res1 header1 m1 p where
    one: "parse_one_file_attr u mem (res, header, m) = Inr (False, res1, header1, m1)"
    and inv1: "parse_inv res1 header1 m1 (ps @ [p]) (es @ [(nm, sz, tm)])"
    and f1: "pakFile res1 = \<lparr>content = ?rest, eof = eof (pakFile res)\<rparr>"
    and sav1: "filenameListSav res1 = filenameListSav res"
    and h1: "magic header1 = magic header" "version header1 = version header"
    by blast
  have c1: "content (pakFile res1) = ?rest" and e1: "\<not> eof (pakFile res1)"
    using f1 Cons.prems(2) by simp_all
  from Cons.IH[OF c1 e1 wf(4) inv1 Cons.prems(5)]
  obtain res' header' m' ps' where
    all: "parse_all_file_attrs u mem (res1, header1, m1) = Inr (res', header', m')"
    and inv': "parse_inv res' header' m' ((ps @ [p]) @ ps') ((es @ [(nm, sz, tm)]) @ map snd tab)"
    and f': "pakFile res' = \<lparr>content = payload, eof = False\<rparr>"
    and sav': "filenameListSav res' = filenameListSav res1"
    and h': "magic header' = magic header1" "version header' = version header1"
    by blast
  have "parse_all_file_attrs u mem (res, header, m) = Inr (res', header', m')"
    by (subst parse_all_file_attrs.simps) (simp add: Cons.prems(2) one all)
  with inv' f' h' h1 sav' sav1 show ?case
    by (intro exI[of _ res'] exI[of _ header'] exI[of _ m'] exI[of _ "p # ps'"]) (simp add: r)
qed

lemma chain_entries:
  "chain (attr_at m) c ps \<Longrightarrow> list_all2 (holds m) ps es \<Longrightarrow> entries_at m c es"
proof (induction ps arbitrary: c es)
  case Nil
  then show ?case by simp
next
  case (Cons p ps)
  from Cons.prems(2) obtain e es' where es: "es = e # es'" and h: "holds m p e"
    and r: "list_all2 (holds m) ps es'"
    by (auto simp: list_all2_Cons1)
  from Cons.prems(1) obtain a where c: "c = Some p" and a: "attr_at m p = Some a"
    and ch: "chain (attr_at m) (next a) ps"
    by (auto split: option.splits)
  from Cons.IH[OF ch r] h show ?case
    by (simp add: es c a holds_def)
qed

lemma arena_create_bounded:
  "arena_create True True 8192 = Some a0 \<Longrightarrow> arena_bounded a0"
  by (auto simp: arena_create_def arena_bounded_def)

lemma parse_header_fields:
  assumes "content (pakFile res) = map decode_one_byte mg @ map decode_one_byte vs @ rest"
    and "length mg = 4" and "length vs = 4"
    and "length (magic header) = 4" and "length (version header) = 4"
  shows "parse_magic res header =
           (res\<lparr>pakFile := \<lparr>content = map decode_one_byte vs @ rest, eof = eof (pakFile res)\<rparr>\<rparr>,
            header\<lparr>magic := mg\<rparr>)"
    and "parse_version (res\<lparr>pakFile := \<lparr>content = map decode_one_byte vs @ rest, eof = eof (pakFile res)\<rparr>\<rparr>)
             (header\<lparr>magic := mg\<rparr>) =
           (res\<lparr>pakFile := \<lparr>content = rest, eof = eof (pakFile res)\<rparr>\<rparr>,
            header\<lparr>magic := mg, version := vs\<rparr>)"
proof -
  have "fread (magic header) 4 (pakFile res) =
          (map decode_one_byte mg, 4, \<lparr>content = map decode_one_byte vs @ rest, eof = eof (pakFile res)\<rparr>)"
    by (subst fread_full) (simp_all add: assms)
  then show "parse_magic res header =
           (res\<lparr>pakFile := \<lparr>content = map decode_one_byte vs @ rest, eof = eof (pakFile res)\<rparr>\<rparr>,
            header\<lparr>magic := mg\<rparr>)"
    by (simp add: parse_magic_def decode_bytes_def assms)
  let ?res1 = "res\<lparr>pakFile := \<lparr>content = map decode_one_byte vs @ rest, eof = eof (pakFile res)\<rparr>\<rparr>"
  have "fread (version (header\<lparr>magic := mg\<rparr>)) 4 (pakFile ?res1) =
          (map decode_one_byte vs, 4, \<lparr>content = rest, eof = eof (pakFile res)\<rparr>)"
    by (subst fread_full) (simp_all add: assms)
  then show "parse_version ?res1 (header\<lparr>magic := mg\<rparr>) =
           (res\<lparr>pakFile := \<lparr>content = rest, eof = eof (pakFile res)\<rparr>\<rparr>,
            header\<lparr>magic := mg, version := vs\<rparr>)"
    by (simp add: parse_version_def decode_bytes_def assms)
qed

lemma parse_pak_header_table:
  assumes wf: "wf_table tab" and grant: "\<forall>n. mem n"
    and lm: "length mg = 4" and lv: "length vs = 4"
    and ab: "arena_bounded a0"
  shows "\<exists>res header m ps.
           parse_pak_header u mem
             (\<lparr>arena = a0,
               pakFile = \<lparr>content = map decode_one_byte (mg @ vs @ table_bytes tab @ [0x80]) @ payload,
                           eof = False\<rparr>,
               filenameListSav = sav\<rparr>,
              pak_header_init u, \<lparr>attr_at = Map.empty, str_at = Map.empty\<rparr>)
             = Inr (res, header, m) \<and>
           parse_inv res header m ps (map snd tab) \<and>
           pakFile res = \<lparr>content = payload, eof = False\<rparr> \<and>
           filenameListSav res = sav \<and> magic header = mg \<and> version header = vs"
proof -
  let ?f = "\<lparr>content = map decode_one_byte (mg @ vs @ table_bytes tab @ [0x80]) @ payload, eof = False\<rparr>"
  let ?res = "\<lparr>arena = a0, pakFile = ?f, filenameListSav = sav\<rparr>"
  let ?rest = "map decode_one_byte (table_bytes tab @ [0x80]) @ payload"
  let ?res2 = "?res\<lparr>pakFile := \<lparr>content = ?rest, eof = eof (pakFile ?res)\<rparr>\<rparr>"
  let ?h2 = "(pak_header_init u)\<lparr>magic := mg, version := vs\<rparr>"
  let ?m0 = "\<lparr>attr_at = Map.empty, str_at = Map.empty\<rparr>"
  have c: "content (pakFile ?res) = map decode_one_byte mg @ map decode_one_byte vs @ ?rest"
    by simp
  have l: "length (magic (pak_header_init u)) = 4" "length (version (pak_header_init u)) = 4"
    by (simp_all add: pak_header_init_def)
  note hf = parse_header_fields[OF c lm lv l]
  have step: "parse_pak_header u mem (?res, pak_header_init u, ?m0) =
                parse_all_file_attrs u mem (?res2, ?h2, ?m0)"
    unfolding parse_pak_header_def prod.case hf Let_def ..
  have inv0: "parse_inv ?res2 ?h2 ?m0 [] []"
    using ab by (simp add: parse_inv_def list_inv_def pak_header_init_def file_attr_list_init_def)
  have c2: "content (pakFile ?res2) = ?rest" and e2: "\<not> eof (pakFile ?res2)"
    by simp_all
  from parse_all_file_attrs_table[OF c2 e2 wf inv0 grant, of u]
  show ?thesis
    unfolding step by (auto simp: pak_header_init_def)
qed

lemma parse_inv_entries:
  "parse_inv res header m ps es \<Longrightarrow>
   entries_at m (head (flist header)) es \<and> length_l (flist header) = of_nat (length es)"
proof -
  assume inv: "parse_inv res header m ps es"
  then have ch: "chain (attr_at m) (head (flist header)) ps"
    and la: "list_all2 (\<lambda>p e. holds m p e \<and> owned (blocks (arena res)) m p e) ps es"
    and len: "length_l (flist header) = of_nat (length ps)"
    by (simp_all add: parse_inv_def list_inv_def)
  from la have "list_all2 (holds m) ps es"
    by (rule list_all2_mono) simp
  with ch have "entries_at m (head (flist header)) es" by (rule chain_entries)
  moreover from la have "length ps = length es" by (rule list_all2_lengthD)
  ultimately show ?thesis using len by simp
qed

text \<open>
  The list on a table that the end mark closes.  Every pass of the loop links its struct
  behind the last one and changes nothing but \<open>next\<close> in the others
  (\<open>parse_one_file_attr_inv\<close>).  For a container whose table is well formed and ends with
  the mark \<open>0x80\<close>, parsed from a fresh pool that the C library lets grow, the list holds
  the table's entries in table order, the count is their number (as a \<open>size_t\<close>), and the
  stream is left at the first payload byte.
\<close>

lemma parse_pak_header_preserves_order:
  assumes "wf_table tab" and "\<forall>n. mem n" and "length mg = 4" and "length vs = 4"
    and "arena_create True True 8192 = Some a0"
  shows "\<exists>res header m.
           parse_pak_header u mem
             (\<lparr>arena = a0,
               pakFile = \<lparr>content = map decode_one_byte (mg @ vs @ table_bytes tab @ [0x80]) @ payload,
                           eof = False\<rparr>,
               filenameListSav = []\<rparr>,
              pak_header_init u, \<lparr>attr_at = Map.empty, str_at = Map.empty\<rparr>)
             = Inr (res, header, m) \<and>
           length_l (flist header) = of_nat (length tab) \<and>
           entries_at m (head (flist header)) (map snd tab) \<and>
           content (pakFile res) = payload"
proof -
  from parse_pak_header_table[OF assms(1-4) arena_create_bounded[OF assms(5)], of u payload "[]"]
  obtain res header m ps where
    r: "parse_pak_header u mem
             (\<lparr>arena = a0,
               pakFile = \<lparr>content = map decode_one_byte (mg @ vs @ table_bytes tab @ [0x80]) @ payload,
                           eof = False\<rparr>,
               filenameListSav = []\<rparr>,
              pak_header_init u, \<lparr>attr_at = Map.empty, str_at = Map.empty\<rparr>)
             = Inr (res, header, m)"
    and inv: "parse_inv res header m ps (map snd tab)"
    and f: "pakFile res = \<lparr>content = payload, eof = False\<rparr>"
    by blast
  from parse_inv_entries[OF inv] r f show ?thesis by simp
qed

lemma parse_pak_header_preserves_order_example:
  "wf_table example_table \<and>
   (\<exists>res header m.
      parse_pak_header example_uninit (\<lambda>n. True)
        (\<lparr>arena = \<lparr>blocks = [\<lparr>used = 0, capacity = 8192\<rparr>], blockSize = 8192, blockNum = 1\<rparr>,
          pakFile = \<lparr>content = map decode_one_byte
                                  ([0xC0, 0x4A, 0xC0, 0xBA] @ [0, 0, 0, 0] @ table_bytes example_table @ [0x80])
                                @ [0x9F, 0x92, 0x9B, 0x9B, 0x98, 0xD6],
                      eof = False\<rparr>,
          filenameListSav = []\<rparr>,
         pak_header_init example_uninit, \<lparr>attr_at = Map.empty, str_at = Map.empty\<rparr>)
        = Inr (res, header, m) \<and>
      length_l (flist header) = of_nat (length example_table) \<and>
      entries_at m (head (flist header)) (map snd example_table) \<and>
      content (pakFile res) = [0x9F, 0x92, 0x9B, 0x9B, 0x98, 0xD6])"
proof
  show wf: "wf_table example_table"
    by (simp add: wf_table_def example_table_def)
  show "\<exists>res header m.
      parse_pak_header example_uninit (\<lambda>n. True)
        (\<lparr>arena = \<lparr>blocks = [\<lparr>used = 0, capacity = 8192\<rparr>], blockSize = 8192, blockNum = 1\<rparr>,
          pakFile = \<lparr>content = map decode_one_byte
                                  ([0xC0, 0x4A, 0xC0, 0xBA] @ [0, 0, 0, 0] @ table_bytes example_table @ [0x80])
                                @ [0x9F, 0x92, 0x9B, 0x9B, 0x98, 0xD6],
                      eof = False\<rparr>,
          filenameListSav = []\<rparr>,
         pak_header_init example_uninit, \<lparr>attr_at = Map.empty, str_at = Map.empty\<rparr>)
        = Inr (res, header, m) \<and>
      length_l (flist header) = of_nat (length example_table) \<and>
      entries_at m (head (flist header)) (map snd example_table) \<and>
      content (pakFile res) = [0x9F, 0x92, 0x9B, 0x9B, 0x98, 0xD6]"
    by (rule parse_pak_header_preserves_order[OF wf]) (simp_all add: arena_create_def)
qed

text \<open>
  A pass that starts at the end of the stream.  \<open>feof\<close> is still false, the read of the
  flag gets nothing, and the test is made on what the local \<open>flag\<close> held.  Unless that
  decodes to \<open>0x80\<close>, the pass builds a struct from bytes that were never read and
  appends it.
\<close>

lemma parse_one_file_attr_exhausted_end:
  assumes "content (pakFile res) = []" and "decode_one_byte (local_flag u) = 0x80"
  shows "parse_one_file_attr u mem (res, header, m) =
           Inr (True, res\<lparr>pakFile := \<lparr>content = [], eof = True\<rparr>\<rparr>, header, m)"
  using assms by (simp add: parse_one_file_attr_def reach_pak_header_end_def fread_def)

lemma parse_one_file_attr_exhausted:
  assumes c: "content (pakFile res) = []" and fl: "decode_one_byte (local_flag u) \<noteq> 0x80"
    and g: "\<forall>n. mem n" and m1: "arena_malloc mem (arena res) sizeof_FileAttr = Inr (p, a1)"
  shows "\<exists>q a2 nm sz tm.
     parse_one_file_attr u mem (res, header, m) =
       (case file_attr_list_add (flist header) p
               ((attr_at m)(p \<mapsto> \<lparr>fileName = q, fileSize = sz, lastWriteTime = tm, next = None\<rparr>)) of
          None \<Rightarrow> Inl Undefined
        | Some (fl', h') \<Rightarrow>
            Inr (False, res\<lparr>arena := a2, pakFile := \<lparr>content = [], eof = True\<rparr>\<rparr>,
                 header\<lparr>flist := fl'\<rparr>, m\<lparr>str_at := (str_at m)(q \<mapsto> nm), attr_at := h'\<rparr>))"
proof -
  from arena_malloc_grants[OF g, of a1 "ucast ((ucast (decode_one_byte (local_byte u)) :: UINT32) + 1) * 1"]
  obtain q a2 where
    m2: "arena_malloc mem a1 (ucast ((ucast (decode_one_byte (local_byte u)) :: UINT32) + 1) * 1) = Inr (q, a2)"
    by blast
  define L where "L = (ucast (decode_one_byte (local_byte u)) :: UINT32)"
  define nm where "nm = decode_bytes ((pool_bytes u q (unat (L + 1)))[unat L := 0]) (unat L)"
  define sz where "sz = le32 (decode_bytes (bytes_of_u32 (le32 (pool_bytes u (ptr_add p 8) 4))) 4)"
  define tm where "tm = decode_bytes (pool_bytes u (ptr_add p 12) 8) 8"
  have "parse_one_file_attr u mem (res, header, m) =
       (case file_attr_list_add (flist header) p
               ((attr_at m)(p \<mapsto> \<lparr>fileName = q, fileSize = sz, lastWriteTime = tm, next = None\<rparr>)) of
          None \<Rightarrow> Inl Undefined
        | Some (fl', h') \<Rightarrow>
            Inr (False, res\<lparr>arena := a2, pakFile := \<lparr>content = [], eof = True\<rparr>\<rparr>,
                 header\<lparr>flist := fl'\<rparr>, m\<lparr>str_at := (str_at m)(q \<mapsto> nm), attr_at := h'\<rparr>))"
    using c fl m1 m2 unfolding nm_def sz_def tm_def L_def
    by (simp add: parse_one_file_attr_def reach_pak_header_end_def fread_def parse_file_name_def
        parse_file_size_def parse_file_last_write_time_def Let_def fresh_attr_def
        split: option.splits)
  then show ?thesis by blast
qed

text \<open>
  C7.  The record collection is append-only and order-preserving: after parsing any
  container, its count equals the number of records appended, and iterating it from
  head to tail yields the records in exactly the order the input stream declares them.

  On a table that has no end mark the loop \<open>while (!feof(res->pakFile))\<close> makes one pass
  more than there are records: the indicator is set only by the read that fails.  For
  the container that declares the single record \<open>a\<close> and ends there, the count is 2 and
  the walk from \<open>head\<close> is not the declared record alone, whatever uninitialised memory
  held, except when the stale byte in \<open>flag\<close> decodes to \<open>0x80\<close>.
\<close>

theorem parse_pak_header_unterminated_table:
  "\<exists>res header m.
     parse_pak_header u (\<lambda>n. True)
       (example_resource
          (map decode_one_byte ([0xC0, 0x4A, 0xC0, 0xBA] @ [0, 0, 0, 0] @ table_bytes single_table)),
        pak_header_init u, empty_memory) = Inr (res, header, m) \<and>
     length_l (flist header) = (if decode_one_byte (local_flag u) = 0x80 then 1 else 2) \<and>
     entries_at m (head (flist header)) (map snd single_table)
       = (decode_one_byte (local_flag u) = 0x80)"
proof -
  let ?bytes = "map decode_one_byte ([0xC0, 0x4A, 0xC0, 0xBA] @ [0, 0, 0, 0] @ table_bytes single_table)"
  let ?a0 = "\<lparr>blocks = [\<lparr>used = 0, capacity = 8192\<rparr>], blockSize = 8192, blockNum = 1\<rparr>"
  let ?a1 = "\<lparr>blocks = [\<lparr>used = 32, capacity = 8192\<rparr>], blockSize = 8192, blockNum = 1\<rparr>"
  let ?a2 = "\<lparr>blocks = [\<lparr>used = 34, capacity = 8192\<rparr>], blockSize = 8192, blockNum = 1\<rparr>"
  let ?a3 = "\<lparr>blocks = [\<lparr>used = 66, capacity = 8192\<rparr>], blockSize = 8192, blockNum = 1\<rparr>"
  let ?res0 = "example_resource ?bytes"
  have c0: "content (pakFile ?res0) = map decode_one_byte [0xC0, 0x4A, 0xC0, 0xBA]
              @ map decode_one_byte [0, 0, 0, 0]
              @ (map decode_one_byte (plain_record 0 ([0x61], 1, [1, 2, 3, 4, 5, 6, 7, 8])) @ [])"
    by (simp add: example_resource_def single_table_def table_bytes_def)
  have lh: "length (magic (pak_header_init u)) = 4" "length (version (pak_header_init u)) = 4"
    by (simp_all add: pak_header_init_def)
  note hf = parse_header_fields[OF c0 _ _ lh]
  let ?res2 = "\<lparr>arena = ?a0,
                pakFile = \<lparr>content = map decode_one_byte (plain_record 0 ([0x61], 1, [1, 2, 3, 4, 5, 6, 7, 8])) @ [],
                            eof = False\<rparr>,
                filenameListSav = []\<rparr>"
  let ?h2 = "(pak_header_init u)\<lparr>magic := [0xC0, 0x4A, 0xC0, 0xBA], version := [0, 0, 0, 0]\<rparr>"
  have ph: "parse_pak_header u (\<lambda>n. True) (?res0, pak_header_init u, empty_memory)
        = parse_all_file_attrs u (\<lambda>n. True) (?res2, ?h2, empty_memory)"
    unfolding parse_pak_header_def using hf by (simp add: example_resource_def)
  have m1: "arena_malloc (\<lambda>n. True) (arena ?res2) sizeof_FileAttr = Inr ((0, 0), ?a1)"
    by (simp add: arena_malloc_def sizeof_FileAttr_def)
  have m2: "arena_malloc (\<lambda>n. True) ?a1 (of_nat (length [0x61 :: UCHAR] + 1)) = Inr ((0, 32), ?a2)"
    by (simp add: arena_malloc_def)
  have c2: "content (pakFile ?res2) = map decode_one_byte (plain_record 0 ([0x61], 1, [1, 2, 3, 4, 5, 6, 7, 8])) @ []"
    by simp
  let ?first = "\<lparr>fileName = (0, 32), fileSize = 1, lastWriteTime = [1, 2, 3, 4, 5, 6, 7, 8], next = None\<rparr>"
  let ?m3 = "\<lparr>attr_at = [(0, 0) \<mapsto> ?first], str_at = [(0, 32) \<mapsto> [0x61, 0]]\<rparr>"
  let ?res3 = "\<lparr>arena = ?a2, pakFile = \<lparr>content = [], eof = False\<rparr>, filenameListSav = []\<rparr>"
  let ?h3 = "?h2\<lparr>flist := \<lparr>head = Some (0, 0), tail = Some (0, 0), length_l = 1\<rparr>\<rparr>"
  have p1: "parse_one_file_attr u (\<lambda>n. True) (?res2, ?h2, empty_memory)
              = Inr (False, ?res3, ?h3, ?m3)"
    apply (subst parse_one_file_attr_record[OF c2 _ _ _ m1 m2])
       apply simp
      apply simp
     apply simp
    apply (simp add: file_attr_list_add_def pak_header_init_def file_attr_list_init_def set_next_def
        empty_memory_def)
    done
  have pa: "parse_all_file_attrs u (\<lambda>n. True) (?res2, ?h2, empty_memory)
              = parse_all_file_attrs u (\<lambda>n. True) (?res3, ?h3, ?m3)"
    apply (subst parse_all_file_attrs.simps)
    apply (simp only: fst_conv p1 sum.case snd_conv)
    apply simp
    done
  have c3: "content (pakFile ?res3) = []" by simp
  show ?thesis
  proof (cases "decode_one_byte (local_flag u) = 0x80")
    case True
    have "parse_all_file_attrs u (\<lambda>n. True) (?res3, ?h3, ?m3)
            = Inr (?res3\<lparr>pakFile := \<lparr>content = [], eof = True\<rparr>\<rparr>, ?h3, ?m3)"
      apply (subst parse_all_file_attrs.simps)
      apply (simp only: fst_conv parse_one_file_attr_exhausted_end[OF c3 True] sum.case snd_conv)
      apply simp
      done
    with True show ?thesis unfolding ph pa by (simp add: single_table_def)
  next
    case False
    have m3: "arena_malloc (\<lambda>n. True) (arena ?res3) sizeof_FileAttr = Inr ((0, 34), ?a3)"
      by (simp add: arena_malloc_def sizeof_FileAttr_def)
    from parse_one_file_attr_exhausted[OF c3 False _ m3, of ?h3 ?m3]
    obtain q a4 nm sz tm where
      p2: "parse_one_file_attr u (\<lambda>n. True) (?res3, ?h3, ?m3) =
       (case file_attr_list_add (flist ?h3) (0, 34)
               ((attr_at ?m3)((0, 34) \<mapsto> \<lparr>fileName = q, fileSize = sz, lastWriteTime = tm, next = None\<rparr>)) of
          None \<Rightarrow> Inl Undefined
        | Some (fl', h') \<Rightarrow>
            Inr (False, ?res3\<lparr>arena := a4, pakFile := \<lparr>content = [], eof = True\<rparr>\<rparr>,
                 ?h3\<lparr>flist := fl'\<rparr>, ?m3\<lparr>str_at := (str_at ?m3)(q \<mapsto> nm), attr_at := h'\<rparr>))"
      by auto
    let ?m4 = "\<lparr>attr_at = [(0, 0) \<mapsto> ?first\<lparr>next := Some (0, 34)\<rparr>,
                           (0, 34) \<mapsto> \<lparr>fileName = q, fileSize = sz, lastWriteTime = tm, next = None\<rparr>],
               str_at = [(0, 32) \<mapsto> [0x61, 0]](q \<mapsto> nm)\<rparr>"
    let ?h4 = "?h2\<lparr>flist := \<lparr>head = Some (0, 0), tail = Some (0, 34), length_l = 2\<rparr>\<rparr>"
    let ?res4 = "\<lparr>arena = a4, pakFile = \<lparr>content = [], eof = True\<rparr>, filenameListSav = []\<rparr>"
    have p2': "parse_one_file_attr u (\<lambda>n. True) (?res3, ?h3, ?m3) = Inr (False, ?res4, ?h4, ?m4)"
      unfolding p2 by (simp add: file_attr_list_add_def set_next_def fun_upd_twist)
    have "parse_all_file_attrs u (\<lambda>n. True) (?res3, ?h3, ?m3) = Inr (?res4, ?h4, ?m4)"
      apply (subst parse_all_file_attrs.simps)
      apply (simp only: fst_conv p2' sum.case snd_conv)
      apply (subst parse_all_file_attrs.simps)
      apply simp
      done
    with False show ?thesis unfolding ph pa by (simp add: single_table_def)
  qed
qed

lemma parse_file_size_frame:
  "parse_file_size res a = (res', a') \<Longrightarrow> fileName a' = fileName a"
  by (auto simp: parse_file_size_def Let_def split: prod.splits)

lemma parse_file_last_write_time_frame:
  "parse_file_last_write_time res a = (res', a') \<Longrightarrow> fileName a' = fileName a"
  by (auto simp: parse_file_last_write_time_def Let_def split: prod.splits)

lemma file_attr_list_add_tail:
  assumes "h p = Some a" and "head fl = None \<or> tail fl \<noteq> None"
  shows "\<exists>fl' h' a'. file_attr_list_add fl p h = Some (fl', h') \<and> tail fl' = Some p \<and>
           h' p = Some a' \<and> fileName a' = fileName a"
proof -
  have f: "\<exists>a'. h' p = Some a' \<and> fileName a' = fileName a" if "same_fields (h' p) (h p)" for h'
    using same_fieldsD[of "h' p" a] that assms(1) by auto
  have s1: "same_fields (set_next h p None p) (h p)"
    by (rule set_next_fields)
  have s2: "same_fields (set_next (set_next h p None) t (Some p) p) (h p)" for t
    using set_next_fields[of "set_next h p None" t "Some p" p] s1
    by (simp add: same_fields_def)
  show ?thesis
  proof (cases "head fl = None")
    case True
    then show ?thesis using f[of "set_next h p None", OF s1] by (simp add: file_attr_list_add_def Let_def)
  next
    case False
    with assms(2) obtain t where "tail fl = Some t" by auto
    with False show ?thesis using f[of "set_next (set_next h p None) t (Some p)", OF s2[of t]] by (auto simp: file_attr_list_add_def Let_def)
  qed
qed

lemma parse_one_file_attr_name:
  assumes c: "content (pakFile res) = fb # lb # nm @ follow"
    and fl: "decode_one_byte fb \<noteq> 0x80" and ln: "length nm = unat (decode_one_byte lb)"
    and grant: "\<forall>n. mem n"
    and wf: "head (flist header) = None \<or> tail (flist header) \<noteq> None"
  shows "appended_name (parse_one_file_attr u mem (res, header, m)) = Some (map decode_one_byte nm)"
proof -
  define res1 where
    "res1 = res\<lparr>pakFile := \<lparr>content = lb # nm @ follow, eof = eof (pakFile res)\<rparr>\<rparr>"
  have r: "reach_pak_header_end u res = (False, res1)"
    using fl by (simp add: reach_pak_header_end_eq c res1_def)
  from arena_malloc_grants[OF grant] obtain p a1 where
    m1: "arena_malloc mem (arena res1) sizeof_FileAttr = Inr (p, a1)" by blast
  from arena_malloc_grants[OF grant] obtain q a2 where
    m2: "arena_malloc mem a1 (of_nat (length nm + 1)) = Inr (q, a2)" by blast
  define res2 where
    "res2 = res1\<lparr>arena := a2, pakFile := \<lparr>content = follow, eof = eof (pakFile res)\<rparr>\<rparr>"
  define m2 where "m2 = m\<lparr>str_at := (str_at m)(q \<mapsto> map decode_one_byte nm @ [0])\<rparr>"
  have L: "unat (decode_one_byte (length_byte u (pakFile (res1\<lparr>arena := a1\<rparr>)))) = length nm"
    by (simp add: length_byte_def res1_def ln)
  have n: "parse_file_name u mem (res1\<lparr>arena := a1\<rparr>) m (fresh_attr u p)
             = Inr (res2, m2, (fresh_attr u p)\<lparr>fileName := q\<rparr>)"
    unfolding parse_file_name_eq Let_def L
    using m2 by (simp add: res1_def res2_def m2_def)
  obtain res3 a3 where s: "parse_file_size res2 ((fresh_attr u p)\<lparr>fileName := q\<rparr>) = (res3, a3)"
    by (cases "parse_file_size res2 ((fresh_attr u p)\<lparr>fileName := q\<rparr>)")
  obtain res4 a4 where t: "parse_file_last_write_time res3 a3 = (res4, a4)"
    by (cases "parse_file_last_write_time res3 a3")
  from parse_file_size_frame[OF s] parse_file_last_write_time_frame[OF t]
  have fq: "fileName a4 = q" by simp
  from file_attr_list_add_tail[of "(attr_at m2)(p \<mapsto> a4)" p a4 "flist header"] wf
  obtain fl' h' a' where
    add: "file_attr_list_add (flist header) p ((attr_at m2)(p \<mapsto> a4)) = Some (fl', h')"
    and tl: "tail fl' = Some p" and hp: "h' p = Some a'" and fa: "fileName a' = fileName a4"
    by auto
  have "parse_one_file_attr u mem (res, header, m)
          = Inr (False, res4, header\<lparr>flist := fl'\<rparr>, m2\<lparr>attr_at := h'\<rparr>)"
    unfolding parse_one_file_attr_def prod.case r bool.case m1 sum.case
    by (simp add: n s t add)
  then show ?thesis
    by (simp add: appended_name_def tl hp fa fq m2_def)
qed

text \<open>
  C2.  In the record-table loop the parser reads and decodes exactly one byte per pass:
  if it is \<open>0x80\<close> parsing is done, otherwise that same byte is the name length \<open>L\<close>
  (\<open>0 \<le> L \<le> 254\<close>) and the next \<open>L\<close> bytes are the name.

  The code reads two bytes: \<open>reach_pak_header_end\<close> consumes a flag byte of its own, and
  \<open>parse_file_name\<close> then reads the length.  On the record \<open>00 02 'a' 'b' ...\<close> the pass
  stores the name \<open>ab\<close>, where the specification's reading takes the flag \<open>00\<close> for
  the length and gives the empty name.
\<close>

theorem parse_one_file_attr_second_byte:
  "appended_name
     (parse_one_file_attr example_uninit (\<lambda>n. True)
        (example_resource (map decode_one_byte (plain_record 0 ([0x61, 0x62], 5, [1, 2, 3, 4, 5, 6, 7, 8]))),
         pak_header_init example_uninit, empty_memory))
     = Some [0x61, 0x62]
   \<and> spec_record_name (map decode_one_byte (plain_record 0 ([0x61, 0x62], 5, [1, 2, 3, 4, 5, 6, 7, 8])))
     = Some []"
proof -
  have m1: "arena_malloc (\<lambda>n. True) (arena (example_resource bs)) sizeof_FileAttr
              = Inr ((0, 0), \<lparr>blocks = [\<lparr>used = 32, capacity = 8192\<rparr>], blockSize = 8192, blockNum = 1\<rparr>)" for bs
    by (simp add: example_resource_def arena_malloc_def sizeof_FileAttr_def)
  have m2: "arena_malloc (\<lambda>n. True) \<lparr>blocks = [\<lparr>used = 32, capacity = 8192\<rparr>], blockSize = 8192, blockNum = 1\<rparr>
              (of_nat (length [0x61 :: UCHAR, 0x62] + 1))
              = Inr ((0, 32), \<lparr>blocks = [\<lparr>used = 35, capacity = 8192\<rparr>], blockSize = 8192, blockNum = 1\<rparr>)"
    by (simp add: arena_malloc_def)
  have c: "content (pakFile (example_resource (map decode_one_byte (plain_record 0 ([0x61, 0x62], 5, [1, 2, 3, 4, 5, 6, 7, 8])))))
             = map decode_one_byte (plain_record 0 ([0x61, 0x62], 5, [1, 2, 3, 4, 5, 6, 7, 8])) @ []"
    by (simp add: example_resource_def)
  show ?thesis
    apply (subst parse_one_file_attr_record[OF c _ _ _ m1 m2])
    apply simp
    apply simp
    apply simp
    apply (simp add: file_attr_list_add_def pak_header_init_def file_attr_list_init_def set_next_def
         appended_name_def empty_memory_def spec_record_name_def plain_record_def decode_one_byte_def)
    done
qed

text \<open>
  C2 as the code has it.  A pass reads and decodes one byte, the flag: if it is \<open>0x80\<close>
  the pass ends the table, having consumed that byte only.  Otherwise it reads a second
  byte, whose decoded value is the name length \<open>L\<close> (\<open>0 \<le> L \<le> 255\<close>, \<open>0x80\<close> included), and
  the next \<open>L\<close> bytes, decoded, are the name it stores (given that the pool can grow
  and the list is in the shape the loop keeps).
\<close>

theorem parse_one_file_attr_flag_then_length:
  assumes "content (pakFile res) = fb # rest"
  shows "(decode_one_byte fb = 0x80 \<longrightarrow>
            parse_one_file_attr u mem (res, header, m)
              = Inr (True, res\<lparr>pakFile := \<lparr>content = rest, eof = eof (pakFile res)\<rparr>\<rparr>, header, m))
         \<and>
         (decode_one_byte fb \<noteq> 0x80 \<longrightarrow>
            (\<forall>lb nm follow.
               rest = lb # nm @ follow \<and> length nm = unat (decode_one_byte lb) \<and> (\<forall>n. mem n) \<and>
               (head (flist header) = None \<or> tail (flist header) \<noteq> None)
               \<longrightarrow> length nm \<le> 255 \<and>
                   appended_name (parse_one_file_attr u mem (res, header, m))
                     = Some (map decode_one_byte nm)))"
proof (intro conjI impI allI)
  assume "decode_one_byte fb = 0x80"
  then have "fb = decode_one_byte 0x80"
    by (metis decode_decode)
  with assms show "parse_one_file_attr u mem (res, header, m)
              = Inr (True, res\<lparr>pakFile := \<lparr>content = rest, eof = eof (pakFile res)\<rparr>\<rparr>, header, m)"
    by (simp add: parse_one_file_attr_end)
next
  fix lb nm follow
  assume fl: "decode_one_byte fb \<noteq> 0x80"
    and h: "rest = lb # nm @ follow \<and> length nm = unat (decode_one_byte lb) \<and> (\<forall>n. mem n) \<and>
               (head (flist header) = None \<or> tail (flist header) \<noteq> None)"
  from h show "length nm \<le> 255"
    using unat_byte_less[of "decode_one_byte lb"] by simp
  from h assms have c: "content (pakFile res) = fb # lb # nm @ follow" by simp
  from parse_one_file_attr_name[OF c fl] h
  show "appended_name (parse_one_file_attr u mem (res, header, m)) = Some (map decode_one_byte nm)"
    by blast
qed

theorem parse_one_file_attr_flag_then_length_witness:
  "parse_one_file_attr example_uninit (\<lambda>n. True)
     (example_resource [0x77, 0x01], pak_header_init example_uninit, empty_memory)
     = Inr (True, example_resource [0x01], pak_header_init example_uninit, empty_memory)
   \<and>
   appended_name
     (parse_one_file_attr example_uninit (\<lambda>n. True)
        (example_resource (0xF7 # 0x77 # replicate 128 0x96 @ replicate 12 0xF7),
         pak_header_init example_uninit, empty_memory))
     = Some (replicate 128 0x61)"
proof
  have c1: "content (pakFile (example_resource [0x77, 0x01])) = 0x77 # [0x01]"
    by (simp add: example_resource_def)
  from parse_one_file_attr_flag_then_length[OF c1, of example_uninit "\<lambda>n. True"
      "pak_header_init example_uninit" empty_memory]
  show "parse_one_file_attr example_uninit (\<lambda>n. True)
     (example_resource [0x77, 0x01], pak_header_init example_uninit, empty_memory)
     = Inr (True, example_resource [0x01], pak_header_init example_uninit, empty_memory)"
    by (simp add: decode_one_byte_def example_resource_def)
next
  have c2: "content (pakFile (example_resource (0xF7 # 0x77 # replicate 128 0x96 @ replicate 12 0xF7)))
              = 0xF7 # (0x77 # replicate 128 0x96 @ replicate 12 0xF7)"
    by (simp add: example_resource_def)
  have d: "decode_one_byte 0xF7 \<noteq> 0x80" "unat (decode_one_byte 0x77) = 128"
    "map decode_one_byte (replicate 128 0x96) = replicate 128 0x61"
    by (simp_all add: decode_one_byte_def)
  from parse_one_file_attr_flag_then_length[OF c2, of example_uninit "\<lambda>n. True"
      "pak_header_init example_uninit" empty_memory] d(1)
  have "\<forall>lb nm follow.
          0x77 # replicate 128 0x96 @ replicate 12 0xF7 = lb # nm @ follow \<and>
          length nm = unat (decode_one_byte lb) \<and> (\<forall>n. (\<lambda>n. True) n) \<and>
          (head (flist (pak_header_init example_uninit)) = None \<or>
           tail (flist (pak_header_init example_uninit)) \<noteq> None)
          \<longrightarrow> length nm \<le> 255 \<and>
              appended_name
                (parse_one_file_attr example_uninit (\<lambda>n. True)
                   (example_resource (0xF7 # 0x77 # replicate 128 0x96 @ replicate 12 0xF7),
                    pak_header_init example_uninit, empty_memory))
              = Some (map decode_one_byte nm)"
    by blast
  from this[rule_format, of "0x77" "replicate 128 0x96" "replicate 12 0xF7"] d(2,3)
  show "appended_name
     (parse_one_file_attr example_uninit (\<lambda>n. True)
        (example_resource (0xF7 # 0x77 # replicate 128 0x96 @ replicate 12 0xF7),
         pak_header_init example_uninit, empty_memory))
     = Some (replicate 128 0x61)"
    by (simp add: pak_header_init_def file_attr_list_init_def)
qed

section \<open>Properties of the copying loop\<close>

lemma unat_ucast_size: "unat (ucast (w :: UINT32) :: size_t) = unat w"
proof -
  have "unat w < 2 ^ 64"
    using unsigned_less[of w, where 'a=nat] by simp
  then show ?thesis by (simp add: unsigned_ucast_eq take_bit_nat_eq_self)
qed

lemma chunk_less: "((ucast (w :: UINT32) :: size_t) < 8192) = (unat w < 8192)"
  by (simp add: word_less_nat_alt unat_ucast_size)

lemma unat_chunk: "c \<le> 8192 \<Longrightarrow> unat (of_nat c :: UINT32) = c"
  by (simp add: unat_of_nat)

lemma unat_sub_chunk:
  fixes fsize :: UINT32
  assumes "c \<le> unat fsize" and "c \<le> 8192"
  shows "unat (fsize - of_nat c) = unat fsize - c"
proof -
  have "(of_nat c :: UINT32) \<le> fsize"
    using assms by (simp add: word_le_nat_alt unat_chunk)
  then show ?thesis
    using assms by (simp add: unat_sub unat_chunk)
qed

lemma decode_bytes_front: "length xs = n \<Longrightarrow> decode_bytes (xs @ ys) n = map decode_one_byte xs @ ys"
  by (simp add: decode_bytes_def)

lemma copy_payload_step:
  fixes fsize :: UINT32 and buf :: "UCHAR list" and res :: Resource and fs :: filesystem
  fixes c buf2 res2
  assumes pos: "0 < unat fsize" and enough: "unat fsize \<le> length (content (pakFile res))"
  defines "c \<equiv> min (unat fsize) 8192"
  defines "buf2 \<equiv> map decode_one_byte (take c (content (pakFile res))) @ drop c buf"
  defines "res2 \<equiv> res\<lparr>pakFile := \<lparr>content = drop c (content (pakFile res)), eof = eof (pakFile res)\<rparr>\<rparr>"
  shows "copy_payload 8192 h (fsize, buf, res, fs) =
           (case WriteFile h buf2 c fs of
              None \<Rightarrow> Some (False, buf2, res2, fs)
            | Some fs' \<Rightarrow> copy_payload 8192 h (fsize - of_nat c, buf2, res2, fs'))"
proof -
  have c8: "c \<le> 8192" and cl: "c \<le> length (content (pakFile res))"
    using enough by (simp_all add: c_def)
  have nz: "0 < fsize" using pos by (simp add: word_less_nat_alt)
  have fr: "(if ucast fsize < (8192 :: size_t) then fread buf (unat fsize) (pakFile res)
             else fread buf (unat (8192 :: size_t)) (pakFile res))
            = (take c (content (pakFile res)) @ drop c buf, c,
               \<lparr>content = drop c (content (pakFile res)), eof = eof (pakFile res)\<rparr>)"
    using enough cl by (auto simp: chunk_less c_def fread_full min_def)
  have db: "decode_bytes (take c (content (pakFile res)) @ drop c buf) c = buf2"
    unfolding buf2_def using cl by (intro decode_bytes_front) simp
  show ?thesis
    apply (subst copy_payload.simps)
    apply (simp only: prod.case nz if_True fr Let_def unat_chunk[OF c8] db res2_def[symmetric])
    done
qed

lemma WriteFile_accepted:
  "files fs h = Some old \<Longrightarrow> \<not> refuse_write fs h (length old) \<Longrightarrow>
   WriteFile h buf n fs = Some (fs\<lparr>files := (files fs)(h \<mapsto> old @ take n buf)\<rparr>)"
  by (simp add: WriteFile_def)

lemma copy_payload_complete:
  assumes "unat fsize \<le> length (content (pakFile res))" and "files fs h = Some old"
    and "\<forall>k. \<not> refuse_write fs h k"
  shows "\<exists>buf'. copy_payload 8192 h (fsize, buf, res, fs) =
           Some (True, buf',
                 res\<lparr>pakFile := \<lparr>content = drop (unat fsize) (content (pakFile res)),
                                   eof = eof (pakFile res)\<rparr>\<rparr>,
                 fs\<lparr>files := (files fs)(h \<mapsto> old @ map decode_one_byte
                                              (take (unat fsize) (content (pakFile res))))\<rparr>)"
  using assms
proof (induction "unat fsize" arbitrary: fsize buf res fs old rule: less_induct)
  case less
  show ?case
  proof (cases "unat fsize = 0")
    case True
    then have z: "fsize = 0" by (simp add: unat_eq_0)
    have "copy_payload 8192 h (fsize, buf, res, fs) = Some (True, buf, res, fs)"
      by (subst copy_payload.simps) (simp add: z)
    moreover have "(files fs)(h \<mapsto> old) = files fs"
      using less.prems(2) by (simp add: fun_upd_idem)
    ultimately show ?thesis using True by simp
  next
    case False
    then have pos: "0 < unat fsize" by simp
    define c where "c = min (unat fsize) 8192"
    define buf2 where "buf2 = map decode_one_byte (take c (content (pakFile res))) @ drop c buf"
    define res2 where
      "res2 = res\<lparr>pakFile := \<lparr>content = drop c (content (pakFile res)), eof = eof (pakFile res)\<rparr>\<rparr>"
    define fs2 where "fs2 = fs\<lparr>files := (files fs)(h \<mapsto> old @ take c buf2)\<rparr>"
    have c: "0 < c" "c \<le> unat fsize" "c \<le> 8192" "c \<le> length (content (pakFile res))"
      using pos less.prems(1) by (simp_all add: c_def)
    have w: "WriteFile h buf2 c fs = Some fs2"
      using less.prems(2,3) by (simp add: WriteFile_accepted fs2_def)
    have step: "copy_payload 8192 h (fsize, buf, res, fs)
                  = copy_payload 8192 h (fsize - of_nat c, buf2, res2, fs2)"
      using copy_payload_step[OF pos less.prems(1), of h buf fs]
      by (simp add: c_def[symmetric] buf2_def[symmetric] res2_def[symmetric] w)
    have u: "unat (fsize - of_nat c) = unat fsize - c"
      by (rule unat_sub_chunk[OF c(2,3)])
    have tk: "take c buf2 = map decode_one_byte (take c (content (pakFile res)))"
      using c(4) by (simp add: buf2_def)
    have p1: "unat (fsize - of_nat c) < unat fsize" using u c by simp
    have p2: "unat (fsize - of_nat c) \<le> length (content (pakFile res2))"
      using u less.prems(1) by (simp add: res2_def)
    have p3: "files fs2 h = Some (old @ take c buf2)" by (simp add: fs2_def)
    have p4: "\<forall>k. \<not> refuse_write fs2 h k" using less.prems(3) by (simp add: fs2_def)
    from less.hyps[OF p1 p2 p3 p4, of buf2]
    obtain buf' where r: "copy_payload 8192 h (fsize - of_nat c, buf2, res2, fs2) =
           Some (True, buf',
                 res2\<lparr>pakFile := \<lparr>content = drop (unat (fsize - of_nat c)) (content (pakFile res2)),
                                   eof = eof (pakFile res2)\<rparr>\<rparr>,
                 fs2\<lparr>files := (files fs2)(h \<mapsto> (old @ take c buf2) @ map decode_one_byte
                                              (take (unat (fsize - of_nat c)) (content (pakFile res2))))\<rparr>)"
      by blast
    have t: "take c xs @ take (unat fsize - c) (drop c xs) = take (unat fsize) xs" for xs :: "UCHAR list"
      using c(2) by (metis le_add_diff_inverse take_add)
    have "map decode_one_byte (take c (content (pakFile res)))
            @ map decode_one_byte (take (unat fsize - c) (drop c (content (pakFile res))))
          = map decode_one_byte (take (unat fsize) (content (pakFile res)))"
      by (simp flip: map_append add: t)
    then show ?thesis
      unfolding step r u tk using c(2)
      by (auto simp: res2_def fs2_def)
  qed
qed

lemma copy_payload_returns:
  assumes "unat fsize \<le> length (content (pakFile res))"
  shows "\<exists>ok buf' res' fs'.
           copy_payload 8192 h (fsize, buf, res, fs) = Some (ok, buf', res', fs') \<and>
           arena res' = arena res \<and> filenameListSav res' = filenameListSav res \<and>
           length (content (pakFile res)) \<le> length (content (pakFile res')) + unat fsize"
  using assms
proof (induction "unat fsize" arbitrary: fsize buf res fs rule: less_induct)
  case less
  show ?case
  proof (cases "unat fsize = 0")
    case True
    then have z: "fsize = 0" by (simp add: unat_eq_0)
    have "copy_payload 8192 h (fsize, buf, res, fs) = Some (True, buf, res, fs)"
      by (subst copy_payload.simps) (simp add: z)
    then show ?thesis by auto
  next
    case False
    then have pos: "0 < unat fsize" by simp
    define c where "c = min (unat fsize) 8192"
    define buf2 where "buf2 = map decode_one_byte (take c (content (pakFile res))) @ drop c buf"
    define res2 where
      "res2 = res\<lparr>pakFile := \<lparr>content = drop c (content (pakFile res)), eof = eof (pakFile res)\<rparr>\<rparr>"
    have c: "0 < c" "c \<le> unat fsize" "c \<le> 8192" "c \<le> length (content (pakFile res))"
      using pos less.prems(1) by (simp_all add: c_def)
    note step = copy_payload_step[OF pos less.prems(1), of h buf fs,
        folded c_def, folded buf2_def res2_def]
    have u: "unat (fsize - of_nat c) = unat fsize - c"
      by (rule unat_sub_chunk[OF c(2,3)])
    show ?thesis
    proof (cases "WriteFile h buf2 c fs")
      case None
      then show ?thesis
        unfolding step using c by (auto simp: res2_def)
    next
      case (Some fs2)
      have p1: "unat (fsize - of_nat c) < unat fsize" using u c by simp
      have p2: "unat (fsize - of_nat c) \<le> length (content (pakFile res2))"
        using u less.prems(1) by (simp add: res2_def)
      from less.hyps[OF p1 p2, of buf2 fs2]
      obtain ok buf' res' fs' where
        r: "copy_payload 8192 h (fsize - of_nat c, buf2, res2, fs2) = Some (ok, buf', res', fs')"
        and k: "arena res' = arena res2" "filenameListSav res' = filenameListSav res2"
          "length (content (pakFile res2)) \<le> length (content (pakFile res')) + unat (fsize - of_nat c)"
        by blast
      show ?thesis
        unfolding step Some option.case r
        using k c u by (simp add: res2_def)
    qed
  qed
qed

lemma copy_payload_not_truncated:
  assumes "copy_payload len h s = Some y"
  shows "\<not> truncated len h s"
proof (rule copy_payload.raw_induct[where P = "\<lambda>len h s y. \<not> truncated len h s", OF _ assms],
    goal_cases)
  case (1 f len h s y)
  note IH = 1(1) and body = 1(2)
  show ?case
  proof
    assume t: "truncated len h s"
    obtain fsize buf res fs where s: "s = (fsize, buf, res, fs)" by (cases s) auto
    from t obtain old where len: "len = 8192"
      and short: "length (content (pakFile res)) < unat fsize"
      and old: "files fs h = Some old" and ok: "\<forall>k. \<not> refuse_write fs h k"
      by (auto simp: truncated_def s)
    define r where "r = min (unat fsize) 8192"
    define n where "n = min r (length (content (pakFile res)))"
    define buf2 where "buf2 = decode_bytes (take r (content (pakFile res)) @ drop n buf) n"
    define res2 where
      "res2 = res\<lparr>pakFile := \<lparr>content = drop r (content (pakFile res)),
                                 eof = (eof (pakFile res) \<or> length (content (pakFile res)) < r)\<rparr>\<rparr>"
    define fs2 where "fs2 = fs\<lparr>files := (files fs)(h \<mapsto> old @ take n buf2)\<rparr>"
    have nz: "0 < fsize" using short by (simp add: word_less_nat_alt)
    have n8: "n \<le> 8192" "n \<le> length (content (pakFile res))" by (simp_all add: n_def r_def)
    have fr: "(if ucast fsize < (8192 :: size_t) then fread buf (unat fsize) (pakFile res)
               else fread buf (unat (8192 :: size_t)) (pakFile res))
              = (take r (content (pakFile res)) @ drop n buf, n, pakFile res2)"
      by (auto simp: chunk_less r_def n_def fread_def Let_def res2_def min_def)
    have w: "WriteFile h buf2 n fs = Some fs2"
      using old ok by (simp add: WriteFile_accepted fs2_def)
    from body have "f len h (fsize - of_nat n, buf2, res2, fs2) = Some y"
      unfolding s len prod.case
      by (simp only: nz if_True fr Let_def prod.case unat_chunk[OF n8(1)] buf2_def[symmetric] w
            option.case) (simp add: res2_def)
    from IH[OF this] have nt: "\<not> truncated len h (fsize - of_nat n, buf2, res2, fs2)" .
    have u: "unat (fsize - of_nat n) = unat fsize - n"
      using n8 short by (intro unat_sub_chunk) simp_all
    have "length (content (pakFile res2)) < unat fsize - n"
      using short by (auto simp: res2_def n_def r_def min_def)
    then have "length (content (pakFile res2)) < unat (fsize - of_nat n)"
      by (simp only: u)
    with nt show False
      using ok by (simp add: truncated_def len fs2_def)
  qed
qed

lemma copy_payload_truncated:
  "truncated len h s \<Longrightarrow> copy_payload len h s = None"
  using copy_payload_not_truncated[of len h s] by (cases "copy_payload len h s") auto

section \<open>Properties of extraction\<close>

lemma c_str_no_nul: "0 \<notin> set (c_str buf)"
  unfolding c_str_def by (metis (mono_tags, lifting) set_takeWhileD)

lemma length_local_path [simp]: "length (map (local_path u) [0..<MAX_PATH]) = MAX_PATH"
  by simp

lemma parse_and_extract_one_file_path:
  assumes nm: "str_at m (fileName a) = Some namebuf"
    and root: "root \<noteq> []" "0 \<notin> set root"
    and fits: "length (joined root (c_str namebuf)) < MAX_PATH"
  shows "parse_and_extract_one_file u m res a root buf len fs =
     (case recursive_create_parent_dirs (joined root (c_str namebuf)) fs of
        (False, fs1) \<Rightarrow> Some (Inr (buf, res, fs1))
      | (True, fs1) \<Rightarrow>
          (case CreateFile (joined root (c_str namebuf)) fs1 of
             None \<Rightarrow> Some (Inr (buf, res, fs1))
           | Some fs2 \<Rightarrow>
               (case copy_payload len (joined root (c_str namebuf)) (fileSize a, buf, res, fs2) of
                  None \<Rightarrow> None
                | Some (False, buf', res', fs3) \<Rightarrow> Some (Inr (buf', res', fs3))
                | Some (True, buf', res', fs3) \<Rightarrow>
                    (case SetFileTime (joined root (c_str namebuf)) (lastWriteTime a) fs3 of
                       None \<Rightarrow> Some (Inr (buf', res', fs3))
                     | Some fs4 \<Rightarrow> Some (Inr (buf', res', fs4))))))"
proof -
  let ?path = "joined root (c_str namebuf)"
  have nn: "0 \<notin> set ?path"
    using root(2) c_str_no_nul[of namebuf] by (auto simp: joined_def)
  have b: "build_complete_path (map (local_path u) [0..<MAX_PATH]) MAX_PATH root (c_str namebuf)
             = Inr (?path @ 0 # drop (Suc (length ?path)) (map (local_path u) [0..<MAX_PATH]))"
    using fits by (simp add: build_complete_path_eq[OF root(1)])
  show ?thesis
    unfolding parse_and_extract_one_file_def nm option.case b sum.case c_str_terminated[OF nn] ..
qed

lemma parse_and_extract_one_file_overrun:
  assumes nm: "str_at m (fileName a) = Some namebuf"
    and bad: "root = [] \<or> MAX_PATH \<le> length (joined root (c_str namebuf))"
  shows "parse_and_extract_one_file u m res a root buf len fs = Some (Inl Undefined)"
proof (cases "root = []")
  case True
  then show ?thesis
    by (simp add: parse_and_extract_one_file_def nm build_complete_path_def split: option.splits)
next
  case False
  with bad have "\<not> length (joined root (c_str namebuf)) < MAX_PATH" by simp
  then show ?thesis
    by (simp add: parse_and_extract_one_file_def nm build_complete_path_eq[OF False])
qed

lemma parse_and_extract_one_file_returns:
  assumes nm: "str_at m (fileName a) = Some namebuf"
    and root: "root \<noteq> []" "0 \<notin> set root"
    and fits: "length (joined root (c_str namebuf)) < MAX_PATH"
    and enough: "unat (fileSize a) \<le> length (content (pakFile res))"
  shows "\<exists>buf' res' fs'.
           parse_and_extract_one_file u m res a root buf 8192 fs = Some (Inr (buf', res', fs')) \<and>
           arena res' = arena res \<and> filenameListSav res' = filenameListSav res \<and>
           length (content (pakFile res)) \<le> length (content (pakFile res')) + unat (fileSize a)"
proof -
  let ?path = "joined root (c_str namebuf)"
  note unf = parse_and_extract_one_file_path[OF nm root fits, of u res buf 8192 fs]
  obtain ok1 fs1 where d: "recursive_create_parent_dirs ?path fs = (ok1, fs1)"
    by (cases "recursive_create_parent_dirs ?path fs")
  show ?thesis
  proof (cases "ok1 \<and> CreateFile ?path fs1 \<noteq> None")
    case False
    then show ?thesis
      unfolding unf d by (cases ok1) auto
  next
    case True
    then obtain fs2 where ok1: ok1 and cf: "CreateFile ?path fs1 = Some fs2" by auto
    from copy_payload_returns[OF enough, of ?path buf fs2]
    obtain ok buf' res' fs3 where
      cp: "copy_payload 8192 ?path (fileSize a, buf, res, fs2) = Some (ok, buf', res', fs3)"
      and k: "arena res' = arena res" "filenameListSav res' = filenameListSav res"
        "length (content (pakFile res)) \<le> length (content (pakFile res')) + unat (fileSize a)"
      by blast
    show ?thesis
      unfolding unf d using ok1 cf cp k
      by (cases ok; cases "SetFileTime ?path (lastWriteTime a) fs3") auto
  qed
qed

lemma save_each_entries:
  "entries_at m c es \<Longrightarrow> save_each m c out = Some (Inr (out @ concat (map name_line es)))"
proof (induction es arbitrary: c out)
  case Nil
  then show ?case by (subst save_each.simps) simp
next
  case (Cons e es)
  from Cons.prems obtain p a where c: "c = Some p" and a: "attr_at m p = Some a"
    and n: "str_at m (fileName a) = Some (fst e @ [0])" and s: "fileSize a = fst (snd e)"
    and r: "entries_at m (next a) es"
    by (auto split: option.splits)
  have "save_each m c out = save_each m (next a) (out @ name_line e)"
    by (subst save_each.simps) (simp add: c a n s name_line_def)
  then show ?case
    by (simp add: Cons.IH[OF r])
qed

lemma create_parent_dirs_refuse_write:
  "create_parent_dirs pre path fs = (ok, fs') \<Longrightarrow> refuse_write fs' = refuse_write fs"
  by (induction pre path fs rule: create_parent_dirs.induct)
     (auto simp: CreateDirectory_def split: if_splits option.splits)

lemma CreateFile_new:
  "CreateFile path fs = Some fs' \<Longrightarrow>
   files fs' path = Some [] \<and> refuse_write fs' = refuse_write fs"
  by (auto simp: CreateFile_def split: if_splits)

lemma extract_each_entries:
  assumes "entries_at m c es" and "0 \<notin> set root" and "\<forall>p k. \<not> refuse_write fs p k"
  shows "(extract_entries root es (content (pakFile res), fs) = None \<longrightarrow>
            extract_each u m root 8192 c (buf, res, fs) = None) \<and>
         (\<forall>x. extract_entries root es (content (pakFile res), fs) = Some (Inl x) \<longrightarrow>
            extract_each u m root 8192 c (buf, res, fs) = Some (Inl x)) \<and>
         (\<forall>bytes' fs'. extract_entries root es (content (pakFile res), fs) = Some (Inr (bytes', fs')) \<longrightarrow>
            (\<exists>buf'. extract_each u m root 8192 c (buf, res, fs)
                       = Some (Inr (buf', res\<lparr>pakFile := \<lparr>content = bytes', eof = eof (pakFile res)\<rparr>\<rparr>, fs'))))"
  using assms
proof (induction es arbitrary: c buf res fs)
  case Nil
  then have "extract_each u m root 8192 c (buf, res, fs) = Some (Inr (buf, res, fs))"
    by (subst extract_each.simps) simp
  then show ?case by auto
next
  case (Cons e es)
  from Cons.prems(1) obtain p a where c: "c = Some p" and a: "attr_at m p = Some a"
    and n: "str_at m (fileName a) = Some (fst e @ [0])" and s: "fileSize a = fst (snd e)"
    and t: "lastWriteTime a = snd (snd e)" and r: "entries_at m (next a) es"
    by (auto split: option.splits)
  let ?path = "joined root (c_str (fst e @ [0]))"
  let ?sz = "unat (fst (snd e))"
  have unf: "extract_each u m root 8192 c (buf, res, fs) =
               (case parse_and_extract_one_file u m res a root buf 8192 fs of
                  None \<Rightarrow> None
                | Some (Inl x) \<Rightarrow> Some (Inl x)
                | Some (Inr s') \<Rightarrow> extract_each u m root 8192 (next a) s')"
    by (subst extract_each.simps) (simp add: c a)
  show ?case
  proof (cases "root = [] \<or> MAX_PATH \<le> length ?path")
    case True
    then show ?thesis
      unfolding unf parse_and_extract_one_file_overrun[OF n True]
      by (auto simp: Let_def)
  next
    case False
    then have root: "root \<noteq> []" and fits: "length ?path < MAX_PATH" by simp_all
    note one = parse_and_extract_one_file_path[OF n root Cons.prems(2) fits, of u res buf 8192 fs]
    obtain ok1 fs1 where d: "recursive_create_parent_dirs ?path fs = (ok1, fs1)"
      by (cases "recursive_create_parent_dirs ?path fs")
    then have rw1: "\<forall>p k. \<not> refuse_write fs1 p k"
      using Cons.prems(3) create_parent_dirs_refuse_write[of "[]" ?path fs ok1 fs1]
      by (simp add: recursive_create_parent_dirs_def)
    show ?thesis
    proof (cases "ok1 \<and> CreateFile ?path fs1 \<noteq> None")
      case skip: False
      then have pe: "parse_and_extract_one_file u m res a root buf 8192 fs = Some (Inr (buf, res, fs1))"
        unfolding one d by (cases ok1) auto
      have ee: "extract_entries root (e # es) (content (pakFile res), fs)
                       = extract_entries root es (content (pakFile res), fs1)"
        using False skip d by (cases ok1) (auto simp: Let_def)
      show ?thesis
        unfolding unf pe ee
        using Cons.IH[OF r Cons.prems(2) rw1, where res = res and buf = buf] by simp
    next
      case True
      then obtain fs2 where ok1: ok1 and cf: "CreateFile ?path fs1 = Some fs2" by auto
      from CreateFile_new[OF cf] rw1 have f2: "files fs2 ?path = Some []"
        and rw2: "\<forall>k. \<not> refuse_write fs2 ?path k" "\<forall>p k. \<not> refuse_write fs2 p k"
        by simp_all
      show ?thesis
      proof (cases "length (content (pakFile res)) < ?sz")
        case short: True
        have "truncated 8192 ?path (fileSize a, buf, res, fs2)"
          using short f2 rw2(1) by (simp add: truncated_def s)
        from copy_payload_truncated[OF this]
        have "parse_and_extract_one_file u m res a root buf 8192 fs = None"
          unfolding one d using ok1 cf by simp
        then have pe: "(case parse_and_extract_one_file u m res a root buf 8192 fs of
                  None \<Rightarrow> None
                | Some (Inl x) \<Rightarrow> Some (Inl x)
                | Some (Inr s') \<Rightarrow> extract_each u m root 8192 (next a) s') = None"
          by simp
        have ee: "extract_entries root (e # es) (content (pakFile res), fs) = None"
          using False short d ok1 cf by (simp add: Let_def)
        show ?thesis unfolding unf pe ee by simp
      next
        case enough: False
        then have en: "unat (fileSize a) \<le> length (content (pakFile res))" by (simp add: s)
        let ?res' = "res\<lparr>pakFile := \<lparr>content = drop ?sz (content (pakFile res)),
                                        eof = eof (pakFile res)\<rparr>\<rparr>"
        let ?fs3 = "fs2\<lparr>files := (files fs2)(?path \<mapsto> map decode_one_byte (take ?sz (content (pakFile res))))\<rparr>"
        let ?fs4 = "case SetFileTime ?path (snd (snd e)) ?fs3 of None \<Rightarrow> ?fs3 | Some fs4 \<Rightarrow> fs4"
        from copy_payload_complete[OF en f2 rw2(1), of buf]
        obtain buf' where cp: "copy_payload 8192 ?path (fileSize a, buf, res, fs2) = Some (True, buf', ?res', ?fs3)"
          by (auto simp: s)
        have pe: "parse_and_extract_one_file u m res a root buf 8192 fs = Some (Inr (buf', ?res', ?fs4))"
          unfolding one d using ok1 cf cp by (simp add: t split: option.splits)
        have ee: "extract_entries root (e # es) (content (pakFile res), fs)
                    = extract_entries root es (drop ?sz (content (pakFile res)), ?fs4)"
          using False enough d ok1 cf by (simp add: Let_def)
        have rw4: "\<forall>p k. \<not> refuse_write ?fs4 p k"
          using rw2(2) by (auto simp: SetFileTime_def split: option.splits if_splits)
        from Cons.IH[OF r Cons.prems(2) rw4, where res = ?res' and buf = buf']
        show ?thesis
          unfolding unf pe ee by simp
      qed
    qed
  qed
qed

lemma extract_each_returns:
  assumes "entries_at m c es" and "paths_fit root es"
    and "payload_size es \<le> length (content (pakFile res))"
  shows "\<exists>buf' res' fs'.
           extract_each u m root 8192 c (buf, res, fs) = Some (Inr (buf', res', fs')) \<and>
           filenameListSav res' = filenameListSav res"
  using assms
proof (induction es arbitrary: c buf res fs)
  case Nil
  then have "extract_each u m root 8192 c (buf, res, fs) = Some (Inr (buf, res, fs))"
    by (subst extract_each.simps) simp
  then show ?case by auto
next
  case (Cons e es)
  from Cons.prems(1) obtain p a where c: "c = Some p" and a: "attr_at m p = Some a"
    and n: "str_at m (fileName a) = Some (fst e @ [0])" and s: "fileSize a = fst (snd e)"
    and r: "entries_at m (next a) es"
    by (auto split: option.splits)
  from Cons.prems(2) have root: "root \<noteq> []" "0 \<notin> set root"
    and fits: "length (joined root (c_str (fst e @ [0]))) < MAX_PATH"
    and pf: "paths_fit root es"
    by (simp_all add: paths_fit_def)
  from Cons.prems(3) have en: "unat (fileSize a) \<le> length (content (pakFile res))"
    and tot: "unat (fileSize a) + payload_size es \<le> length (content (pakFile res))"
    by (simp_all add: payload_size_def s)
  from parse_and_extract_one_file_returns[OF n root fits en, of u buf fs]
  obtain buf1 res1 fs1 where
    one: "parse_and_extract_one_file u m res a root buf 8192 fs = Some (Inr (buf1, res1, fs1))"
    and sav: "filenameListSav res1 = filenameListSav res"
    and len: "length (content (pakFile res)) \<le> length (content (pakFile res1)) + unat (fileSize a)"
    by blast
  from tot len have "payload_size es \<le> length (content (pakFile res1))" by simp
  from Cons.IH[OF r pf this, of buf1 fs1]
  obtain buf' res' fs' where
    rest: "extract_each u m root 8192 (next a) (buf1, res1, fs1) = Some (Inr (buf', res', fs'))"
    and sav': "filenameListSav res' = filenameListSav res1"
    by blast
  have "extract_each u m root 8192 c (buf, res, fs) = Some (Inr (buf', res', fs'))"
    by (subst extract_each.simps) (simp add: c a one rest)
  with sav sav' show ?case by simp
qed

section \<open>Properties of the program\<close>

lemma resource_init_None:
  "(resource_init hok bok pak sav fs = None) =
     (arena_create hok bok 8192 = None \<or> fopen_rb pak fs = None \<or> fopen_w sav fs = None)"
  by (auto simp: resource_init_def split: option.splits)

lemma main_refused:
  assumes "refused w"
  shows "main w = Some (Exit 1 (disk w))"
proof -
  consider "length (argv w) \<noteq> 3"
    | "length (argv w) = 3" "is_dir_exist (disk w) (argv w ! 2)"
    | "length (argv w) = 3" "\<not> is_dir_exist (disk w) (argv w ! 2)"
      "resource_init (malloc_handle w) (malloc_block w) (argv w ! 1) filenames_txt (disk w) = None"
    using assms unfolding refused_def resource_init_None by auto
  then show ?thesis
    by cases (simp_all add: main_def)
qed

lemma main_not_refused:
  assumes "\<not> refused w" and "main w = Some (Exit c fs)"
  shows "c = 0"
proof -
  from assms(1) obtain res fs0 where
    i: "resource_init (malloc_handle w) (malloc_block w) (argv w ! 1) filenames_txt (disk w) = Some (res, fs0)"
    and l: "length (argv w) = 3" and d: "\<not> is_dir_exist (disk w) (argv w ! 2)"
    using resource_init_None[of "malloc_handle w" "malloc_block w" "argv w ! 1" filenames_txt "disk w"]
    by (auto simp: refused_def)
  from assms(2) i show ?thesis
    unfolding main_def
    by (simp add: l d split: sum.splits option.splits prod.splits)
qed

lemma main_start:
  assumes nr: "\<not> refused w" and wf: "well_formed_input w mg vs tab payload"
  shows "\<exists>res header m.
           entries_at m (head (flist header)) (map snd tab) \<and>
           pakFile res = \<lparr>content = payload, eof = False\<rparr> \<and>
           main w =
             (case extract_files (garbage w) (grant w) m
                     (res\<lparr>filenameListSav := concat (map name_line (map snd tab))\<rparr>) header
                     (argv w ! 2) ((disk w)\<lparr>files := (files (disk w))(filenames_txt \<mapsto> [])\<rparr>) of
                None \<Rightarrow> None
              | Some (Inl e) \<Rightarrow> Some (Stopped e)
              | Some (Inr (res3, fs')) \<Rightarrow> Some (Exit 0 (resource_free filenames_txt res3 fs')))"
proof -
  let ?fs0 = "(disk w)\<lparr>files := (files (disk w))(filenames_txt \<mapsto> [])\<rparr>"
  from nr have l: "length (argv w) = 3" and d: "\<not> is_dir_exist (disk w) (argv w ! 2)"
    and ar: "arena_create (malloc_handle w) (malloc_block w) 8192 \<noteq> None"
    and o1: "fopen_rb (argv w ! 1) (disk w) \<noteq> None" and o2: "fopen_w filenames_txt (disk w) \<noteq> None"
    by (simp_all add: refused_def)
  from wf have c: "files (disk w) (argv w ! 1) = Some (container mg vs tab payload)"
    and ne: "argv w ! 1 \<noteq> filenames_txt"
    and lm: "length mg = 4" and lv: "length vs = 4" and wt: "wf_table tab" and g: "\<forall>n. grant w n"
    by (simp_all add: well_formed_input_def)
  from ar obtain a0 where a0: "arena_create (malloc_handle w) (malloc_block w) 8192 = Some a0" by auto
  then have hb: "malloc_handle w" "malloc_block w"
    by (auto simp: arena_create_def split: if_splits)
  with a0 have ab: "arena_bounded a0" by (auto intro: arena_create_bounded)
  let ?res0 = "\<lparr>arena = a0,
                pakFile = \<lparr>content = map decode_one_byte (mg @ vs @ table_bytes tab @ [0x80]) @ payload,
                            eof = False\<rparr>,
                filenameListSav = []\<rparr>"
  have i: "resource_init (malloc_handle w) (malloc_block w) (argv w ! 1) filenames_txt (disk w)
             = Some (?res0, ?fs0)"
    using o1 o2 c ne a0
    by (auto simp: resource_init_def fopen_rb_def fopen_w_def container_def split: if_splits)
  from parse_pak_header_table[OF wt g lm lv ab, of "garbage w" payload "[]"]
  obtain res header m ps where
    p: "parse_pak_header (garbage w) (grant w)
          (?res0, pak_header_init (garbage w), \<lparr>attr_at = Map.empty, str_at = Map.empty\<rparr>)
          = Inr (res, header, m)"
    and inv: "parse_inv res header m ps (map snd tab)"
    and f: "pakFile res = \<lparr>content = payload, eof = False\<rparr>"
    and sv: "filenameListSav res = []"
    by blast
  from parse_inv_entries[OF inv] have ea: "entries_at m (head (flist header)) (map snd tab)" by simp
  have s: "save_file_name_list m res header
             = Some (Inr (res\<lparr>filenameListSav := concat (map name_line (map snd tab))\<rparr>))"
    by (simp add: save_file_name_list_def save_each_entries[OF ea] sv)
  have "main w =
             (case extract_files (garbage w) (grant w) m
                     (res\<lparr>filenameListSav := concat (map name_line (map snd tab))\<rparr>) header
                     (argv w ! 2) ?fs0 of
                None \<Rightarrow> None
              | Some (Inl e) \<Rightarrow> Some (Stopped e)
              | Some (Inr (res3, fs')) \<Rightarrow> Some (Exit 0 (resource_free filenames_txt res3 fs')))"
    unfolding main_def using i p s by (simp add: l d)
  with ea f show ?thesis by blast
qed

lemma main_returns:
  assumes nr: "\<not> refused w" and wf: "well_formed_input w mg vs tab payload"
    and pf: "paths_fit (argv w ! 2) (map snd tab)"
    and ps: "payload_size (map snd tab) \<le> length payload"
  shows "\<exists>fs. main w = Some (Exit 0 fs)"
proof -
  from main_start[OF nr wf] obtain res header m where
    ea: "entries_at m (head (flist header)) (map snd tab)"
    and f: "pakFile res = \<lparr>content = payload, eof = False\<rparr>"
    and mn: "main w =
             (case extract_files (garbage w) (grant w) m
                     (res\<lparr>filenameListSav := concat (map name_line (map snd tab))\<rparr>) header
                     (argv w ! 2) ((disk w)\<lparr>files := (files (disk w))(filenames_txt \<mapsto> [])\<rparr>) of
                None \<Rightarrow> None
              | Some (Inl e) \<Rightarrow> Some (Stopped e)
              | Some (Inr (res3, fs')) \<Rightarrow> Some (Exit 0 (resource_free filenames_txt res3 fs')))"
    by blast
  let ?res2 = "res\<lparr>filenameListSav := concat (map name_line (map snd tab))\<rparr>"
  let ?fs0 = "(disk w)\<lparr>files := (files (disk w))(filenames_txt \<mapsto> [])\<rparr>"
  from wf have g: "\<forall>n. grant w n" by (simp add: well_formed_input_def)
  from arena_malloc_grants[OF g] obtain p a' where
    am: "arena_malloc (grant w) (arena ?res2) (8192 * 1) = Inr (p, a')" by blast
  have en: "payload_size (map snd tab) \<le> length (content (pakFile (?res2\<lparr>arena := a'\<rparr>)))"
    using ps f by simp
  from extract_each_returns[OF ea pf en, of "garbage w" "pool_bytes (garbage w) p 8192" ?fs0]
  obtain buf' res' fs' where
    "extract_each (garbage w) m (argv w ! 2) 8192 (head (flist header))
       (pool_bytes (garbage w) p 8192, ?res2\<lparr>arena := a'\<rparr>, ?fs0) = Some (Inr (buf', res', fs'))"
    by blast
  then have "extract_files (garbage w) (grant w) m ?res2 header (argv w ! 2) ?fs0 = Some (Inr (res', fs'))"
    unfolding extract_files_def am by simp
  then show ?thesis unfolding mn by simp
qed

text \<open>
  With a well-formed table, a name list that is another file, a pool that can grow, a
  root without a NUL and \<open>WriteFile\<close> never refused, a run is the walk \<open>extract_entries\<close>
  over the payload section, followed by the closing of the name list.
\<close>

lemma main_extract_entries:
  assumes nr: "\<not> refused w" and wf: "well_formed_input w mg vs tab payload"
    and nn: "0 \<notin> set (argv w ! 2)" and rw: "\<forall>p k. \<not> refuse_write (disk w) p k"
  shows "main w =
     (case extract_entries (argv w ! 2) (map snd tab)
             (payload, (disk w)\<lparr>files := (files (disk w))(filenames_txt \<mapsto> [])\<rparr>) of
        None \<Rightarrow> None
      | Some (Inl e) \<Rightarrow> Some (Stopped e)
      | Some (Inr (bytes', fs')) \<Rightarrow>
          Some (Exit 0 (fs'\<lparr>files := (files fs')(filenames_txt \<mapsto>
                                concat (map name_line (map snd tab)))\<rparr>)))"
proof -
  let ?fs0 = "(disk w)\<lparr>files := (files (disk w))(filenames_txt \<mapsto> [])\<rparr>"
  let ?text = "concat (map name_line (map snd tab))"
  from main_start[OF nr wf] obtain res header m where
    ea: "entries_at m (head (flist header)) (map snd tab)"
    and f: "pakFile res = \<lparr>content = payload, eof = False\<rparr>"
    and mn: "main w =
             (case extract_files (garbage w) (grant w) m
                     (res\<lparr>filenameListSav := ?text\<rparr>) header (argv w ! 2) ?fs0 of
                None \<Rightarrow> None
              | Some (Inl e) \<Rightarrow> Some (Stopped e)
              | Some (Inr (res3, fs')) \<Rightarrow> Some (Exit 0 (resource_free filenames_txt res3 fs')))"
    by blast
  let ?res2 = "res\<lparr>filenameListSav := ?text\<rparr>"
  from wf have g: "\<forall>n. grant w n" by (simp add: well_formed_input_def)
  from arena_malloc_grants[OF g] obtain p a' where
    am: "arena_malloc (grant w) (arena ?res2) (8192 * 1) = Inr (p, a')" by blast
  let ?res3 = "?res2\<lparr>arena := a'\<rparr>"
  let ?buf = "pool_bytes (garbage w) p 8192"
  have rw0: "\<forall>p k. \<not> refuse_write ?fs0 p k" using rw by simp
  have c3: "content (pakFile ?res3) = payload" using f by simp
  note ee = extract_each_entries[OF ea nn rw0, of ?res3 "garbage w" ?buf, unfolded c3]
  have ef: "extract_files (garbage w) (grant w) m ?res2 header (argv w ! 2) ?fs0 =
          (case extract_each (garbage w) m (argv w ! 2) 8192 (head (flist header)) (?buf, ?res3, ?fs0) of
             None \<Rightarrow> None
           | Some (Inl e) \<Rightarrow> Some (Inl e)
           | Some (Inr (buf, res', fs')) \<Rightarrow> Some (Inr (res', fs')))"
    unfolding extract_files_def am by simp
  show ?thesis
  proof (cases "extract_entries (argv w ! 2) (map snd tab) (payload, ?fs0)")
    case None
    with ee show ?thesis unfolding mn ef by simp
  next
    case (Some r)
    show ?thesis
    proof (cases r)
      case (Inl e)
      with Some ee show ?thesis unfolding mn ef by simp
    next
      case (Inr q)
      obtain bytes' fs' where q: "q = (bytes', fs')" by (cases q)
      from ee Some Inr q obtain buf' where
        "extract_each (garbage w) m (argv w ! 2) 8192 (head (flist header)) (?buf, ?res3, ?fs0)
           = Some (Inr (buf', ?res3\<lparr>pakFile := \<lparr>content = bytes', eof = eof (pakFile ?res3)\<rparr>\<rparr>, fs'))"
        by auto
      then show ?thesis
        unfolding mn ef Some Inr q by (simp add: resource_free_def)
    qed
  qed
qed

lemma example_world_not_refused: "\<not> refused (example_world bytes)"
  by (simp add: refused_def example_world_def example_disk_def is_dir_exist_def arena_create_def
        fopen_rb_def fopen_w_def)

lemma example_world_well_formed:
  "wf_table tab \<Longrightarrow>
   well_formed_input (example_world (container [0xC0, 0x4A, 0xC0, 0xBA] [0, 0, 0, 0] tab payload))
     [0xC0, 0x4A, 0xC0, 0xBA] [0, 0, 0, 0] tab payload"
  by (simp add: well_formed_input_def example_world_def example_disk_def filenames_txt_def)

text \<open>
  C1.  For every container in which a record declares a size larger than the payload
  bytes that remain in the stream, the chunked copy loop of that record terminates, with
  an explicit error for the record, rather than looping indefinitely.

  The loop \<open>while (fileSize > 0)\<close> counts down by what \<open>fread\<close> returned and never
  tests for the end of the stream.  On the container whose table declares \<open>ab\<close> with
  five bytes and \<open>c\<close> with one byte and whose payload section has five bytes, \<open>ab\<close> is
  extracted, and the loop of \<open>c\<close> reads nothing, writes nothing and subtracts nothing,
  for ever: the run does not return.
\<close>

theorem main_truncated_container_hangs:
  "main (example_world (container [0xC0, 0x4A, 0xC0, 0xBA] [0, 0, 0, 0] example_table
           [0x9F, 0x92, 0x9B, 0x9B, 0x98])) = None"
proof -
  have wf: "wf_table example_table" by (simp add: wf_table_def example_table_def)
  show ?thesis
    apply (subst main_extract_entries[OF example_world_not_refused example_world_well_formed[OF wf]])
      apply (simp add: example_world_def)
     apply (simp add: example_world_def example_disk_def)
    apply (simp add: example_world_def example_disk_def example_table_def Let_def joined_def c_str_def
        MAX_PATH_def recursive_create_parent_dirs_def is_dir_exist_def CreateDirectory_def CreateFile_def
        filenames_txt_def SetFileTime_def)
    done
qed

text \<open>
  C3.  A record whose destination cannot be created is skipped, and every other record
  is still processed and its file holds that record's decoded payload bytes.

  A skipped record leaves \<open>parse_and_extract_one_file\<close> before the copy loop, and its
  payload stays in the stream, where the next record reads it as its own.  On the table
  \<open>a\<close>, \<open>a\<close>, \<open>b\<close> with the payload bytes of \<open>x\<close>, \<open>y\<close>, \<open>z\<close>, the second \<open>a\<close> collides
  with the first and is skipped, the run returns 0, and \<open>out\b\<close> holds \<open>y\<close>, the payload
  of the skipped record, where the payload of \<open>b\<close> is \<open>z\<close>.
\<close>

theorem main_skipped_record_shifts_payload:
  "\<exists>fs. main (example_world (container [0xC0, 0x4A, 0xC0, 0xBA] [0, 0, 0, 0] duplicate_table
                  [0x8F, 0x8E, 0x8D])) = Some (Exit 0 fs) \<and>
         files fs (map of_char ''out'' @ [0x5C, 0x61]) = Some [0x78] \<and>
         files fs (map of_char ''out'' @ [0x5C, 0x62]) = Some [0x79] \<and>
         map decode_one_byte (take 1 (drop 2 [0x8F, 0x8E, 0x8D])) = [0x7A]"
proof -
  have wf: "wf_table duplicate_table" by (simp add: wf_table_def duplicate_table_def)
  show ?thesis
    apply (subst main_extract_entries[OF example_world_not_refused example_world_well_formed[OF wf]])
      apply (simp add: example_world_def)
     apply (simp add: example_world_def example_disk_def)
    apply (simp add: example_world_def example_disk_def duplicate_table_def Let_def joined_def c_str_def
        MAX_PATH_def recursive_create_parent_dirs_def is_dir_exist_def CreateDirectory_def CreateFile_def
        filenames_txt_def SetFileTime_def decode_one_byte_def)
    done
qed

text \<open>
  C8.  The process exits with code 1 exactly when the argument count is wrong, the
  extraction directory exists, or the pool, the container or the name list cannot be
  set up; in every other run it exits with code 0.

  A run that is not refused need not exit with 0: when the C library refuses a further
  block to the pool, \<open>arena_create_new_block\<close> calls \<open>abort()\<close>.  With one record in the
  table the first block holds the record, the request for the 8192-byte working buffer
  needs a second block, and the run is aborted.
\<close>

theorem main_pool_exhausted_aborts:
  "\<not> refused ((example_world (container [0xC0, 0x4A, 0xC0, 0xBA] [0, 0, 0, 0] single_table [0x8F]))
            \<lparr>grant := (\<lambda>n. False)\<rparr>) \<and>
   main ((example_world (container [0xC0, 0x4A, 0xC0, 0xBA] [0, 0, 0, 0] single_table [0x8F]))
            \<lparr>grant := (\<lambda>n. False)\<rparr>) = Some (Stopped Aborted)"
proof
  let ?bytes = "container [0xC0, 0x4A, 0xC0, 0xBA] [0, 0, 0, 0] single_table [0x8F]"
  let ?w = "(example_world ?bytes)\<lparr>grant := (\<lambda>n. False)\<rparr>"
  let ?a0 = "\<lparr>blocks = [\<lparr>used = 0, capacity = 8192\<rparr>], blockSize = 8192, blockNum = 1\<rparr>"
  let ?a1 = "\<lparr>blocks = [\<lparr>used = 32, capacity = 8192\<rparr>], blockSize = 8192, blockNum = 1\<rparr>"
  let ?a2 = "\<lparr>blocks = [\<lparr>used = 34, capacity = 8192\<rparr>], blockSize = 8192, blockNum = 1\<rparr>"
  let ?fs0 = "(example_disk ?bytes)\<lparr>files := (files (example_disk ?bytes))(filenames_txt \<mapsto> [])\<rparr>"
  let ?res0 = "\<lparr>arena = ?a0, pakFile = \<lparr>content = ?bytes, eof = False\<rparr>, filenameListSav = []\<rparr>"
  show "\<not> refused ?w"
    by (simp add: refused_def example_world_def example_disk_def is_dir_exist_def arena_create_def
        fopen_rb_def fopen_w_def)
  have ri: "resource_init True True (map of_char ''main.pak'') filenames_txt (example_disk ?bytes)
              = Some (?res0, ?fs0)"
    by (simp add: resource_init_def arena_create_def fopen_rb_def fopen_w_def example_disk_def
        filenames_txt_def)
  have c0: "content (pakFile ?res0) = map decode_one_byte [0xC0, 0x4A, 0xC0, 0xBA]
              @ map decode_one_byte [0, 0, 0, 0]
              @ (map decode_one_byte (plain_record 0 ([0x61], 1, [1, 2, 3, 4, 5, 6, 7, 8]))
                   @ (decode_one_byte 0x80 # [0x8F]))"
    by (simp add: container_def single_table_def table_bytes_def)
  note hf = parse_header_fields[OF c0, of "pak_header_init example_uninit"]
  let ?res2 = "\<lparr>arena = ?a0,
                pakFile = \<lparr>content = map decode_one_byte (plain_record 0 ([0x61], 1, [1, 2, 3, 4, 5, 6, 7, 8]))
                                     @ (decode_one_byte 0x80 # [0x8F]), eof = False\<rparr>,
                filenameListSav = []\<rparr>"
  let ?h2 = "(pak_header_init example_uninit)\<lparr>magic := [0xC0, 0x4A, 0xC0, 0xBA], version := [0, 0, 0, 0]\<rparr>"
  have ph: "parse_pak_header example_uninit (\<lambda>n. False) (?res0, pak_header_init example_uninit, empty_memory)
        = parse_all_file_attrs example_uninit (\<lambda>n. False) (?res2, ?h2, empty_memory)"
    unfolding parse_pak_header_def using hf by (simp add: pak_header_init_def)
  have m1: "arena_malloc (\<lambda>n. False) (arena ?res2) sizeof_FileAttr = Inr ((0, 0), ?a1)"
    by (simp add: arena_malloc_def sizeof_FileAttr_def)
  have m2: "arena_malloc (\<lambda>n. False) ?a1 (of_nat (length [0x61 :: UCHAR] + 1)) = Inr ((0, 32), ?a2)"
    by (simp add: arena_malloc_def)
  have c2: "content (pakFile ?res2) = map decode_one_byte (plain_record 0 ([0x61], 1, [1, 2, 3, 4, 5, 6, 7, 8]))
                                     @ (decode_one_byte 0x80 # [0x8F])"
    by simp
  let ?m3 = "\<lparr>attr_at = [(0, 0) \<mapsto> \<lparr>fileName = (0, 32), fileSize = 1, lastWriteTime = [1, 2, 3, 4, 5, 6, 7, 8], next = None\<rparr>],
               str_at = [(0, 32) \<mapsto> [0x61, 0]]\<rparr>"
  let ?res3 = "\<lparr>arena = ?a2, pakFile = \<lparr>content = decode_one_byte 0x80 # [0x8F], eof = False\<rparr>,
                filenameListSav = []\<rparr>"
  let ?h3 = "?h2\<lparr>flist := \<lparr>head = Some (0, 0), tail = Some (0, 0), length_l = 1\<rparr>\<rparr>"
  have p1: "parse_one_file_attr example_uninit (\<lambda>n. False) (?res2, ?h2, empty_memory)
              = Inr (False, ?res3, ?h3, ?m3)"
    apply (subst parse_one_file_attr_record[OF c2 _ _ _ m1 m2])
       apply simp
      apply simp
     apply simp
    apply (simp add: file_attr_list_add_def pak_header_init_def file_attr_list_init_def set_next_def
        empty_memory_def)
    done
  have p2: "parse_one_file_attr example_uninit (\<lambda>n. False) (?res3, ?h3, ?m3)
              = Inr (True, ?res3\<lparr>pakFile := \<lparr>content = [0x8F], eof = False\<rparr>\<rparr>, ?h3, ?m3)"
    by (subst parse_one_file_attr_end[where rest = "[0x8F]"]) simp_all
  have pa: "parse_all_file_attrs example_uninit (\<lambda>n. False) (?res2, ?h2, empty_memory)
              = Inr (?res3\<lparr>pakFile := \<lparr>content = [0x8F], eof = False\<rparr>\<rparr>, ?h3, ?m3)"
    apply (subst parse_all_file_attrs.simps)
    apply (simp only: fst_conv p1 sum.case snd_conv)
    apply (subst parse_all_file_attrs.simps)
    apply (simp only: fst_conv p2 sum.case snd_conv)
    apply simp
    done
  have ea: "entries_at ?m3 (head (flist ?h3)) (map snd single_table)"
    by (simp add: single_table_def)
  have sv: "save_file_name_list ?m3 (?res3\<lparr>pakFile := \<lparr>content = [0x8F], eof = False\<rparr>\<rparr>) ?h3
              = Some (Inr (?res3\<lparr>pakFile := \<lparr>content = [0x8F], eof = False\<rparr>,
                                 filenameListSav := concat (map name_line (map snd single_table))\<rparr>))"
    unfolding save_file_name_list_def using save_each_entries[OF ea, of "[]"] by simp
  have ef: "extract_files example_uninit (\<lambda>n. False) ?m3
              (?res3\<lparr>pakFile := \<lparr>content = [0x8F], eof = False\<rparr>,
                                 filenameListSav := concat (map name_line (map snd single_table))\<rparr>)
              ?h3 root fs = Some (Inl Aborted)" for root fs
    by (simp add: extract_files_def arena_malloc_def arena_create_new_block_def)
  show "main ?w = Some (Stopped Aborted)"
    using ri ph pa sv ef unfolding main_def
    by (simp add: example_world_def example_disk_def is_dir_exist_def empty_memory_def)
qed

text \<open>
  C8 as the code has it.  The process exits with code 1 exactly in the three cases of
  refusal, and then the file system is as it was; a run that is not refused and returns
  from \<open>main\<close> exits with code 0; and it does return, with code 0, when the table is well
  formed, the pool can grow, every destination path fits \<open>MAX_PATH\<close> and the payload
  section holds the bytes the table declares, whether or not records are skipped.
\<close>

theorem main_exit_code:
  "((\<exists>fs. main w = Some (Exit 1 fs)) = refused w) \<and>
   (refused w \<longrightarrow> main w = Some (Exit 1 (disk w))) \<and>
   (\<not> refused w \<and> main w = Some (Exit c fs) \<longrightarrow> c = 0) \<and>
   (\<not> refused w \<and> well_formed_input w mg vs tab payload \<and>
    paths_fit (argv w ! 2) (map snd tab) \<and> payload_size (map snd tab) \<le> length payload
      \<longrightarrow> (\<exists>fs'. main w = Some (Exit 0 fs')))"
proof (intro conjI impI)
  show "(\<exists>fs. main w = Some (Exit 1 fs)) = refused w"
  proof
    assume "\<exists>fs. main w = Some (Exit 1 fs)"
    then obtain fs1 where m: "main w = Some (Exit 1 fs1)" ..
    show "refused w"
    proof (rule ccontr)
      assume "\<not> refused w"
      from main_not_refused[OF this m] show False by simp
    qed
  next
    assume "refused w"
    from main_refused[OF this] show "\<exists>fs. main w = Some (Exit 1 fs)" ..
  qed
next
  assume "refused w"
  then show "main w = Some (Exit 1 (disk w))" by (rule main_refused)
next
  assume "\<not> refused w \<and> main w = Some (Exit c fs)"
  then show "c = 0" using main_not_refused by blast
next
  assume "\<not> refused w \<and> well_formed_input w mg vs tab payload \<and>
    paths_fit (argv w ! 2) (map snd tab) \<and> payload_size (map snd tab) \<le> length payload"
  then show "\<exists>fs'. main w = Some (Exit 0 fs')" using main_returns by blast
qed

theorem main_exit_code_witness:
  "refused ((example_world [])\<lparr>disk := (example_disk [])\<lparr>dirs := {map of_char ''out''}\<rparr>\<rparr>) \<and>
   main ((example_world [])\<lparr>disk := (example_disk [])\<lparr>dirs := {map of_char ''out''}\<rparr>\<rparr>)
     = Some (Exit 1 ((example_disk [])\<lparr>dirs := {map of_char ''out''}\<rparr>)) \<and>
   \<not> refused (example_world (container [0xC0, 0x4A, 0xC0, 0xBA] [0, 0, 0, 0] duplicate_table
                  [0x8F, 0x8E, 0x8D])) \<and>
   well_formed_input (example_world (container [0xC0, 0x4A, 0xC0, 0xBA] [0, 0, 0, 0] duplicate_table
                  [0x8F, 0x8E, 0x8D])) [0xC0, 0x4A, 0xC0, 0xBA] [0, 0, 0, 0] duplicate_table [0x8F, 0x8E, 0x8D] \<and>
   paths_fit (map of_char ''out'') (map snd duplicate_table) \<and>
   payload_size (map snd duplicate_table) \<le> length [0x8F :: UCHAR, 0x8E, 0x8D] \<and>
   (\<exists>fs'. main (example_world (container [0xC0, 0x4A, 0xC0, 0xBA] [0, 0, 0, 0] duplicate_table
                  [0x8F, 0x8E, 0x8D])) = Some (Exit 0 fs'))"
proof -
  let ?wd = "(example_world [])\<lparr>disk := (example_disk [])\<lparr>dirs := {map of_char ''out''}\<rparr>\<rparr>"
  let ?w = "example_world (container [0xC0, 0x4A, 0xC0, 0xBA] [0, 0, 0, 0] duplicate_table
                  [0x8F, 0x8E, 0x8D])"
  have r: "refused ?wd"
    by (simp add: refused_def example_world_def is_dir_exist_def)
  have d: "disk ?wd = (example_disk [])\<lparr>dirs := {map of_char ''out''}\<rparr>" by simp
  have wf: "wf_table duplicate_table" by (simp add: wf_table_def duplicate_table_def)
  have a2: "argv ?w ! 2 = map of_char ''out''" by (simp add: example_world_def)
  have pf: "paths_fit (map of_char ''out'') (map snd duplicate_table)"
    by (simp add: paths_fit_def duplicate_table_def joined_def c_str_def MAX_PATH_def)
  have ps: "payload_size (map snd duplicate_table) \<le> length [0x8F :: UCHAR, 0x8E, 0x8D]"
    by (simp add: payload_size_def duplicate_table_def)
  from main_exit_code[of ?wd] r d
  have 1: "main ?wd = Some (Exit 1 ((example_disk [])\<lparr>dirs := {map of_char ''out''}\<rparr>))"
    by simp
  from main_exit_code[of ?w _ _ "[0xC0, 0x4A, 0xC0, 0xBA]" "[0, 0, 0, 0]" duplicate_table "[0x8F, 0x8E, 0x8D]"]
    example_world_not_refused example_world_well_formed[OF wf] pf ps a2
  have 2: "\<exists>fs'. main ?w = Some (Exit 0 fs')"
    by simp
  from r 1 example_world_not_refused example_world_well_formed[OF wf] pf ps 2
  show ?thesis by blast
qed

end
